theory Spec2Isabelle
  imports Main "HOL-Library.Word"
begin

unbundle bit_operations_syntax

section \<open>Data model\<close>

text \<open>
  The program is one Python function, \<^verbatim>\<open>extract_multiple_images_from_composite\<close>,
  that drives OpenCV, NumPy and the file system. It is embedded by explicit state passing.

  \<^item> A NumPy array of 8-bit values is a list of rows, a row a list of pixels, a pixel the
    list of its channels: three for a colour image, one for a grayscale image or a mask.
  \<^item> Arrays live in a store, addressed by their position in it, because
    \<^verbatim>\<open>img[y:y + h, x:x + w]\<close> is a view that shares the buffer of \<^verbatim>\<open>img\<close> and
    \<^verbatim>\<open>cv2.drawContours\<close> writes into its first argument in place.
  \<^item> The file system is the map from paths to the files, the set of directories and the
    map of zip archives; the log is the list of records emitted. A path is a string: two
    spellings of one location are two keys.
  \<^item> What OpenCV computes by floating point or by border following (the weights of the
    grayscale conversion, the Gaussian mean, the contour detector, the polygon rasteriser)
    is a field of the record \<open>vision\<close>; what it does with those values is written out.
  \<^item> Calls into the file system succeed: an \<^verbatim>\<open>OSError\<close> of \<^verbatim>\<open>os.makedirs\<close>, a write
    refused by the operating system and a fault of \<^verbatim>\<open>shutil.make_archive\<close> depend on
    state the model does not hold. The faults that depend on the data alone are results of
    the model: \<^verbatim>\<open>cv2.imread\<close> raising on a file it refuses, and the size assertion of
    \<^verbatim>\<open>cv2.bitwise_and\<close>.
\<close>

type_synonym u8 = "8 word"
type_synonym pixel = "u8 list"
type_synonym ndarray = "pixel list list"
type_synonym point = "int \<times> int"
type_synonym contour = "point list"
type_synonym rect = "int \<times> int \<times> int \<times> int"

datatype level = INFO | ERROR

datatype error = CvError

datatype view = View nat int int int int

text \<open>
  What \<^verbatim>\<open>cv2.imread\<close> makes of the content of a file: an image that decodes; content
  that does not decode, for which it returns \<^verbatim>\<open>None\<close>; content it refuses with
  \<^verbatim>\<open>cv2.error\<close>, such as a header that declares more pixels than the library accepts.
\<close>

datatype disk_file = ImageFile ndarray | UndecodableFile | RejectedFile

record state =
  heap :: "ndarray list"
  files :: "string \<rightharpoonup> disk_file"
  dirs :: "string set"
  archives :: "string \<rightharpoonup> (string \<rightharpoonup> disk_file)"
  logged :: "(level \<times> string) list"
  extracted_files :: "string list"

record vision =
  gray_of :: "pixel \<Rightarrow> u8"
  local_mean :: "ndarray \<Rightarrow> nat \<Rightarrow> nat \<Rightarrow> u8"
  find_contours :: "ndarray \<Rightarrow> contour list"
  fill_covers :: "contour list \<Rightarrow> point \<Rightarrow> bool"

section \<open>Python strings and paths\<close>

definition digit :: "nat \<Rightarrow> char" where
  "digit d = ''0123456789'' ! d"

function str_nat :: "nat \<Rightarrow> string" where
  "str_nat n = (if n < 10 then [digit n] else str_nat (n div 10) @ [digit (n mod 10)])"
  by pat_completeness auto
termination
  by (relation "measure id") auto

declare str_nat.simps [simp del]

text \<open>\<^verbatim>\<open>str.split(sep)\<close> and \<^verbatim>\<open>sep.join(parts)\<close>.\<close>

fun split_on :: "char \<Rightarrow> string \<Rightarrow> string list" where
  "split_on s [] = [[]]"
| "split_on s (c # cs) =
     (if c = s then [] # split_on s cs
      else (case split_on s cs of [] \<Rightarrow> [[c]] | w # ws \<Rightarrow> (c # w) # ws))"

fun join_with :: "string \<Rightarrow> string list \<Rightarrow> string" where
  "join_with s [] = []"
| "join_with s [w] = w"
| "join_with s (w # ws) = w @ s @ join_with s ws"

text \<open>\<^verbatim>\<open>posixpath.normpath\<close>: the loop over the components, then the function.\<close>

definition normpath_step :: "nat \<Rightarrow> string list \<Rightarrow> string \<Rightarrow> string list" where
  "normpath_step initial_slashes new_comps part =
     (if part = [] \<or> part = ''.'' then new_comps
      else if part \<noteq> ''..'' \<or> (initial_slashes = 0 \<and> new_comps = [])
              \<or> (new_comps \<noteq> [] \<and> last new_comps = ''..'')
           then new_comps @ [part]
      else if new_comps \<noteq> [] then butlast new_comps
      else new_comps)"

definition normpath :: "string \<Rightarrow> string" where
  "normpath path =
     (if path = [] then ''.''
      else
        let initial_slashes =
              (if take 1 path = ''/''
               then (if take 2 path = ''//'' \<and> take 3 path \<noteq> ''///'' then 2 else 1)
               else (0::nat));
            comps = foldl (normpath_step initial_slashes) [] (split_on (CHR ''/'') path);
            p = replicate initial_slashes (CHR ''/'') @ join_with ''/'' comps
        in if p = [] then ''.'' else p)"

text \<open>\<^verbatim>\<open>posixpath.basename\<close>: what follows the last slash.\<close>

definition basename :: "string \<Rightarrow> string" where
  "basename p = rev (takeWhile (\<lambda>c. c \<noteq> CHR ''/'') (rev p))"

text \<open>\<^verbatim>\<open>posixpath.join\<close> of two components.\<close>

definition path_join :: "string \<Rightarrow> string \<Rightarrow> string" where
  "path_join a b =
     (if take 1 b = ''/'' then b
      else if a = [] \<or> last a = CHR ''/'' then a @ b
      else a @ ''/'' @ b)"

section \<open>Arrays\<close>

text \<open>
  A Python slice \<^verbatim>\<open>xs[a:b]\<close> with integer bounds: a negative bound counts from the end,
  and both are clipped to the length.
\<close>

definition py_slice :: "int \<Rightarrow> int \<Rightarrow> 'a list \<Rightarrow> 'a list" where
  "py_slice a b xs =
     (let n = int (length xs);
          lo = (if a < 0 then max (a + n) 0 else min a n);
          hi = (if b < 0 then max (b + n) 0 else min b n)
      in take (nat (hi - lo)) (drop (nat lo) xs))"

definition slice2 :: "int \<Rightarrow> int \<Rightarrow> int \<Rightarrow> int \<Rightarrow> ndarray \<Rightarrow> ndarray" where
  "slice2 r0 r1 c0 c1 a = map (py_slice c0 c1) (py_slice r0 r1 a)"

text \<open>\<^verbatim>\<open>np.zeros((h, w), dtype=np.uint8)\<close>; the run calls it with sizes above 20 only.\<close>

definition np_zeros :: "int \<Rightarrow> int \<Rightarrow> ndarray" where
  "np_zeros h w = replicate (nat h) (replicate (nat w) [0])"

text \<open>\<^verbatim>\<open>cv2.cvtColor(img, cv2.COLOR_BGR2GRAY)\<close>: one gray value for each pixel.\<close>

definition bgr2gray :: "vision \<Rightarrow> ndarray \<Rightarrow> ndarray" where
  "bgr2gray cv a = map (map (\<lambda>p. [gray_of cv p])) a"

text \<open>
  \<^verbatim>\<open>cv2.adaptiveThreshold(gray, 255, ADAPTIVE_THRESH_GAUSSIAN_C, THRESH_BINARY_INV, 11, 2)\<close>:
  a pixel becomes 255 when it is at most its local mean minus 2, and 0 otherwise.
\<close>

definition thresh_inv :: "u8 \<Rightarrow> u8 \<Rightarrow> u8" where
  "thresh_inv s m = (if uint s - uint m \<le> - 2 then 255 else 0)"

definition threshold :: "vision \<Rightarrow> ndarray \<Rightarrow> ndarray" where
  "threshold cv g =
     map (\<lambda>r. map (\<lambda>c. map (\<lambda>s. thresh_inv s (local_mean cv g r c)) (g ! r ! c))
                [0..<length (g ! r)])
         [0..<length g]"

text \<open>\<^verbatim>\<open>cv2.boundingRect(contour)\<close>: \<open>(x, y, w, h)\<close>, the empty rectangle for no point.\<close>

definition boundingRect :: "contour \<Rightarrow> rect" where
  "boundingRect c =
     (if c = [] then (0, 0, 0, 0)
      else
        let x0 = Min (set (map fst c)); x1 = Max (set (map fst c));
            y0 = Min (set (map snd c)); y1 = Max (set (map snd c))
        in (x0, y0, x1 - x0 + 1, y1 - y0 + 1))"

text \<open>\<^verbatim>\<open>contour - [x, y]\<close>: a new array, the contour moved by \<open>(- x, - y)\<close>.\<close>

definition translate :: "contour \<Rightarrow> int \<Rightarrow> int \<Rightarrow> contour" where
  "translate c x y = map (\<lambda>(px, py). (px - x, py - y)) c"

text \<open>
  \<^verbatim>\<open>cv2.drawContours(image, contours, -1, (255), thickness=cv2.FILLED)\<close>: every pixel
  the filled contours cover takes the colour \<open>(255, 0, 0, 0)\<close> cut to the channels of the
  image; the other pixels keep their value.
\<close>

definition draw_filled :: "vision \<Rightarrow> contour list \<Rightarrow> ndarray \<Rightarrow> ndarray" where
  "draw_filled cv cs a =
     map (\<lambda>r. map (\<lambda>c. if fill_covers cv cs (int c, int r)
                         then take (length (a ! r ! c)) [255, 0, 0, 0]
                         else a ! r ! c)
                [0..<length (a ! r)])
         [0..<length a]"

text \<open>
  \<^verbatim>\<open>cv2.bitwise_and(src1, src2, mask=mask)\<close> with no destination: the sources must have
  one shape and the mask, single-channel, their size; the fresh destination is cleared,
  then receives the conjunction where the mask is not zero.
\<close>

definition shape :: "ndarray \<Rightarrow> nat list list" where
  "shape a = map (map length) a"

definition and_pixel :: "pixel \<Rightarrow> pixel \<Rightarrow> pixel \<Rightarrow> pixel" where
  "and_pixel p q m = (if m \<noteq> [0] then map2 (AND) p q else map (\<lambda>_. 0) p)"

definition and_masked :: "ndarray \<Rightarrow> ndarray \<Rightarrow> ndarray \<Rightarrow> ndarray" where
  "and_masked s1 s2 m =
     map2 (\<lambda>r1 (r2, rm). map2 (\<lambda>p (q, pm). and_pixel p q pm) r1 (zip r2 rm)) s1 (zip s2 m)"

definition bitwise_and_arrays :: "ndarray \<Rightarrow> ndarray \<Rightarrow> ndarray \<Rightarrow> error + ndarray" where
  "bitwise_and_arrays s1 s2 m =
     (if shape s1 = shape s2 \<and> shape m = map (map (\<lambda>_. 1)) s1
      then Inr (and_masked s1 s2 m) else Inl CvError)"

section \<open>Operations on the state\<close>

definition alloc :: "ndarray \<Rightarrow> state \<Rightarrow> nat \<times> state" where
  "alloc a st = (length (heap st), st\<lparr>heap := heap st @ [a]\<rparr>)"

definition deref :: "state \<Rightarrow> view \<Rightarrow> ndarray" where
  "deref st v = (case v of View base r0 r1 c0 c1 \<Rightarrow> slice2 r0 r1 c0 c1 (heap st ! base))"

definition logging :: "level \<Rightarrow> string \<Rightarrow> state \<Rightarrow> state" where
  "logging l msg st = st\<lparr>logged := logged st @ [(l, msg)]\<rparr>"

text \<open>
  \<^verbatim>\<open>cv2.imread(path)\<close>: a new array holding the image of the file; \<^verbatim>\<open>None\<close> when the
  path names no file or a file that does not decode; \<^verbatim>\<open>cv2.error\<close> raised when the
  library refuses the file. \<^verbatim>\<open>cv2.imwrite(path, img)\<close> stores the array under the path,
  replacing what was there; PNG is lossless, so a later read returns that array.
\<close>

definition imread :: "string \<Rightarrow> state \<Rightarrow> error + nat option \<times> state" where
  "imread path st =
     (case files st path of
        None \<Rightarrow> Inr (None, st)
      | Some UndecodableFile \<Rightarrow> Inr (None, st)
      | Some RejectedFile \<Rightarrow> Inl CvError
      | Some (ImageFile a) \<Rightarrow> (case alloc a st of (img, st') \<Rightarrow> Inr (Some img, st')))"

definition cvtColor :: "vision \<Rightarrow> nat \<Rightarrow> state \<Rightarrow> nat \<times> state" where
  "cvtColor cv src st = alloc (bgr2gray cv (heap st ! src)) st"

definition adaptiveThreshold :: "vision \<Rightarrow> nat \<Rightarrow> state \<Rightarrow> nat \<times> state" where
  "adaptiveThreshold cv src st = alloc (threshold cv (heap st ! src)) st"

definition findContours :: "vision \<Rightarrow> nat \<Rightarrow> state \<Rightarrow> contour list" where
  "findContours cv src st = find_contours cv (heap st ! src)"

text \<open>
  \<^verbatim>\<open>os.makedirs(path, exist_ok=True)\<close>: the directory exists afterwards, whether it did
  before or not; the directories above it are not tracked.
\<close>

definition makedirs :: "string \<Rightarrow> state \<Rightarrow> state" where
  "makedirs path st = st\<lparr>dirs := insert path (dirs st)\<rparr>"

definition drawContours :: "vision \<Rightarrow> nat \<Rightarrow> contour list \<Rightarrow> state \<Rightarrow> state" where
  "drawContours cv dst cs st =
     st\<lparr>heap := (heap st)[dst := draw_filled cv cs (heap st ! dst)]\<rparr>"

definition bitwise_and :: "view \<Rightarrow> view \<Rightarrow> nat \<Rightarrow> state \<Rightarrow> error + nat \<times> state" where
  "bitwise_and src1 src2 mask_arr st =
     (case bitwise_and_arrays (deref st src1) (deref st src2) (heap st ! mask_arr) of
        Inl e \<Rightarrow> Inl e
      | Inr dst \<Rightarrow> Inr (alloc dst st))"

definition imwrite :: "string \<Rightarrow> nat \<Rightarrow> state \<Rightarrow> state" where
  "imwrite path img st = st\<lparr>files := (files st)(path \<mapsto> ImageFile (heap st ! img))\<rparr>"

text \<open>
  \<^verbatim>\<open>shutil.make_archive(base, 'zip', root)\<close>: the archive \<open>base.zip\<close> holds the
  files below \<open>root\<close> as they are when it is made.
\<close>

definition below :: "string \<Rightarrow> string \<Rightarrow> bool" where
  "below root p = (take (length (path_join root [])) p = path_join root [])"

definition make_archive :: "string \<Rightarrow> string \<Rightarrow> state \<Rightarrow> state" where
  "make_archive base root st =
     st\<lparr>archives := (archives st)(base @ ''.zip'' \<mapsto>
          (\<lambda>p. if below root p then files st p else None))\<rparr>"

section \<open>The extractor\<close>

definition MIN_CONTOUR_WIDTH :: int where
  "MIN_CONTOUR_WIDTH = 20"

definition MIN_CONTOUR_HEIGHT :: int where
  "MIN_CONTOUR_HEIGHT = 20"

text \<open>The name of the file of the contour at position \<open>i\<close> of the enumeration.\<close>

definition img_path_of :: "string \<Rightarrow> string \<Rightarrow> nat \<Rightarrow> string" where
  "img_path_of output_path output_folder_name i =
     path_join output_path (output_folder_name @ ''_'' @ str_nat (i + 1) @ ''.png'')"

text \<open>The body of the loop over \<^verbatim>\<open>enumerate(contours)\<close>.\<close>

definition loop_body ::
  "vision \<Rightarrow> string \<Rightarrow> string \<Rightarrow> nat \<Rightarrow> nat \<times> contour \<Rightarrow> state \<Rightarrow> error \<times> state + state" where
  "loop_body cv output_path output_folder_name img ic st =
     (case ic of (i, contour) \<Rightarrow>
      (case boundingRect contour of (x, y, w, h) \<Rightarrow>
         if w > MIN_CONTOUR_WIDTH \<and> h > MIN_CONTOUR_HEIGHT then
           (let roi = View img y (y + h) x (x + w) in
            case alloc (np_zeros h w) st of (mask_arr, st1) \<Rightarrow>
              (let st2 = drawContours cv mask_arr [translate contour x y] st1 in
               case bitwise_and roi roi mask_arr st2 of
                 Inl e \<Rightarrow> Inl (e, st2)
               | Inr (roi_transparent, st3) \<Rightarrow>
                   (let img_path = img_path_of output_path output_folder_name i;
                        st4 = imwrite img_path roi_transparent st3;
                        st5 = st4\<lparr>extracted_files := extracted_files st4 @ [img_path]\<rparr>
                    in Inr (logging INFO (''Saved image: '' @ img_path) st5))))
         else Inr st))"

fun for_each ::
  "('a \<Rightarrow> state \<Rightarrow> error \<times> state + state) \<Rightarrow> 'a list \<Rightarrow> state \<Rightarrow> error \<times> state + state" where
  "for_each body [] st = Inr st"
| "for_each body (x # xs) st =
     (case body x st of Inl e \<Rightarrow> Inl e | Inr st' \<Rightarrow> for_each body xs st')"

definition extract_multiple_images_from_composite ::
  "vision \<Rightarrow> string \<Rightarrow> string \<Rightarrow> bool \<Rightarrow> state \<Rightarrow> error \<times> state + state" where
  "extract_multiple_images_from_composite cv input_path output_path zip_output st =
     (let st0 = logging INFO
                  (''Starting icon extraction from '' @ input_path @ '' to '' @ output_path) st
      in case imread input_path st0 of
           Inl e \<Rightarrow> Inl (e, st0)
         | Inr (None, st1) \<Rightarrow>
             Inr (logging ERROR (''Could not load image from '' @ input_path) st1)
         | Inr (Some img, st1) \<Rightarrow>
             (case cvtColor cv img st1 of (gray, st2) \<Rightarrow>
              case adaptiveThreshold cv gray st2 of (adaptive_thresh, st3) \<Rightarrow>
                (let contours = findContours cv adaptive_thresh st3;
                     st4 = makedirs output_path st3;
                     output_folder_name = basename (normpath output_path);
                     st5 = st4\<lparr>extracted_files := []\<rparr>
                 in case for_each (loop_body cv output_path output_folder_name img)
                           (enumerate 0 contours) st5 of
                      Inl e \<Rightarrow> Inl e
                    | Inr st6 \<Rightarrow>
                        (let st7 = logging INFO
                                     (''Extraction complete. Saved ''
                                       @ str_nat (length (extracted_files st6)) @ '' icons.'') st6;
                             st8 = logging INFO (''Icons saved in: '' @ output_path) st7
                         in if zip_output
                            then Inr (logging INFO (''Download ZIP: '' @ output_path @ ''.zip'')
                                       (make_archive output_path output_path st8))
                            else Inr st8))))"

section \<open>Vocabulary of the properties\<close>

text \<open>
  The values the run computes on its way, named so that the properties can speak of them:
  the contours the detector yields for an image (lines 28 to 39 of the source), the size
  test of line 54, the crop of line 55, the mask of lines 58 and 59 and the masked crop of
  line 60.
\<close>

definition detect :: "vision \<Rightarrow> ndarray \<Rightarrow> contour list" where
  "detect cv img = find_contours cv (threshold cv (bgr2gray cv img))"

definition survives :: "contour \<Rightarrow> bool" where
  "survives c =
     (case boundingRect c of (x, y, w, h) \<Rightarrow> w > MIN_CONTOUR_WIDTH \<and> h > MIN_CONTOUR_HEIGHT)"

definition crop :: "ndarray \<Rightarrow> contour \<Rightarrow> ndarray" where
  "crop img c = (case boundingRect c of (x, y, w, h) \<Rightarrow> slice2 y (y + h) x (x + w) img)"

definition region_mask :: "vision \<Rightarrow> contour \<Rightarrow> ndarray" where
  "region_mask cv c =
     (case boundingRect c of (x, y, w, h) \<Rightarrow>
        draw_filled cv [translate c x y] (np_zeros h w))"

definition icon :: "vision \<Rightarrow> ndarray \<Rightarrow> contour \<Rightarrow> ndarray" where
  "icon cv img c = and_masked (crop img c) (crop img c) (region_mask cv c)"

text \<open>
  The contract of the contour detector that the crop relies on: the points of a contour
  are pixel positions of the image it was found in.
\<close>

definition within :: "ndarray \<Rightarrow> contour \<Rightarrow> bool" where
  "within a c =
     (\<forall>(px, py)\<in>set c. 0 \<le> px \<and> 0 \<le> py \<and> py < int (length a)
        \<and> (\<forall>row\<in>set a. px < int (length row)))"

text \<open>The enumerated contours that pass the size test, in the order of the detector.\<close>

definition survivors :: "nat \<Rightarrow> contour list \<Rightarrow> (nat \<times> contour) list" where
  "survivors n cs = filter (\<lambda>(i, c). survives c) (enumerate n cs)"

text \<open>The state in which a run ends, whether it returns or stops at a fault.\<close>

definition outcome_state :: "error \<times> state + state \<Rightarrow> state" where
  "outcome_state r = (case r of Inl (e, s) \<Rightarrow> s | Inr s \<Rightarrow> s)"

text \<open>The path under which the run saves the contour at position \<open>i\<close> (line 63).\<close>

definition output_name :: "string \<Rightarrow> nat \<Rightarrow> string" where
  "output_name output_path i = img_path_of output_path (basename (normpath output_path)) i"

text \<open>
  The state in which the loop starts once the image \<open>img\<close> is loaded (lines 18 to 47),
  and the statements that follow the loop (lines 68 to 75).
\<close>

definition entry_state :: "vision \<Rightarrow> string \<Rightarrow> string \<Rightarrow> ndarray \<Rightarrow> state \<Rightarrow> state" where
  "entry_state cv input_path output_path img st =
     st\<lparr>logged := logged st @
            [(INFO, ''Starting icon extraction from '' @ input_path @ '' to '' @ output_path)],
        heap := heap st @ [img, bgr2gray cv img, threshold cv (bgr2gray cv img)],
        dirs := insert output_path (dirs st),
        extracted_files := []\<rparr>"

definition finish :: "string \<Rightarrow> bool \<Rightarrow> state \<Rightarrow> state" where
  "finish output_path zip_output st6 =
     (let st7 = logging INFO (''Extraction complete. Saved ''
                               @ str_nat (length (extracted_files st6)) @ '' icons.'') st6;
          st8 = logging INFO (''Icons saved in: '' @ output_path) st7
      in if zip_output
         then logging INFO (''Download ZIP: '' @ output_path @ ''.zip'')
                (make_archive output_path output_path st8)
         else st8)"

text \<open>
  The masked crop as the specification words it, with no use of the functions the run
  calls: the crop holds, at row \<open>r\<close> and column \<open>col\<close>, the pixel of the image at row
  \<open>y + r\<close> and column \<open>x + col\<close>; the mask over the bounding box is 255 on the pixels
  covered by the filled contour, moved into the coordinates of the box by subtracting
  its origin \<open>(x, y)\<close> from every point, and 0 elsewhere; the result is the conjunction
  of every channel of every pixel with the mask value at that pixel.
\<close>

definition spec_crop :: "ndarray \<Rightarrow> contour \<Rightarrow> ndarray" where
  "spec_crop img c =
     (case boundingRect c of (x, y, w, h) \<Rightarrow>
        map (\<lambda>r. map (\<lambda>col. img ! (nat y + r) ! (nat x + col)) [0..<nat w]) [0..<nat h])"

definition spec_mask :: "vision \<Rightarrow> contour \<Rightarrow> ndarray" where
  "spec_mask cv c =
     (case boundingRect c of (x, y, w, h) \<Rightarrow>
        map (\<lambda>r. map (\<lambda>col. if fill_covers cv [map (\<lambda>(px, py). (px - x, py - y)) c]
                                   (int col, int r)
                              then [255] else [0])
                   [0..<nat w])
            [0..<nat h])"

definition spec_and_pixel :: "pixel \<Rightarrow> pixel \<Rightarrow> pixel" where
  "spec_and_pixel p m = (case m of [v] \<Rightarrow> map (\<lambda>ch. ch AND v) p | _ \<Rightarrow> [])"

definition spec_and :: "ndarray \<Rightarrow> ndarray \<Rightarrow> ndarray" where
  "spec_and roi m = map2 (map2 spec_and_pixel) roi m"

text \<open>The file names \<open>1..K\<close> with no gap, as the specification numbers the output.\<close>

definition consecutive_names :: "string \<Rightarrow> nat \<Rightarrow> string list" where
  "consecutive_names output_path k = map (output_name output_path) [0..<k]"

section \<open>Sample runs\<close>

text \<open>
  A composite of 22 rows and 24 columns in which every pixel records its own column and
  row, and stand-ins for the library: the detector reports a speck of one pixel, then a
  region of 22 by 21 pixels; the rasteriser covers the pixels strictly inside the
  bounding box of a contour.
\<close>

definition sample_image :: ndarray where
  "sample_image = map (\<lambda>r. map (\<lambda>c. [of_nat c, of_nat r, 50]) [0..<24]) [0..<22]"

definition sample_contours :: "contour list" where
  "sample_contours = [[(3, 4)], [(1, 1), (22, 1), (22, 21), (1, 21)]]"

definition sample_vision :: vision where
  "sample_vision =
     \<lparr>gray_of = (\<lambda>p. case p of [] \<Rightarrow> 0 | v # _ \<Rightarrow> v),
      local_mean = (\<lambda>g r c. case g ! r ! c of [] \<Rightarrow> 0 | v # _ \<Rightarrow> v),
      find_contours = (\<lambda>m. sample_contours),
      fill_covers = (\<lambda>cs (x, y). \<exists>c\<in>set cs.
         case boundingRect c of (l, t, w, h) \<Rightarrow>
           l < x \<and> x < l + w - 1 \<and> t < y \<and> y < t + h - 1)\<rparr>"

definition sample_state :: state where
  "sample_state =
     \<lparr>heap = [], files = [''in.png'' \<mapsto> ImageFile sample_image], dirs = {}, archives = Map.empty,
      logged = [], extracted_files = []\<rparr>"

text \<open>
  A state in which the output name of the region already holds another image, and one
  in which the input is a file that \<^verbatim>\<open>cv2.imread\<close> refuses.
\<close>

definition stale_state :: state where
  "stale_state =
     sample_state\<lparr>files := [''in.png'' \<mapsto> ImageFile sample_image,
                            ''out/out_2.png'' \<mapsto> ImageFile [[[1, 2, 3]]]]\<rparr>"

definition rejected_state :: state where
  "rejected_state = sample_state\<lparr>files := [''huge.png'' \<mapsto> RejectedFile]\<rparr>"

text \<open>A blank page, and a detector that finds nothing where the mask has no foreground.\<close>

definition blank_image :: ndarray where
  "blank_image = replicate 22 (replicate 24 [255, 255, 255])"

definition blank_vision :: vision where
  "blank_vision =
     sample_vision\<lparr>find_contours :=
       (\<lambda>m. if \<forall>row\<in>set m. \<forall>p\<in>set row. p = [0] then [] else sample_contours)\<rparr>"

definition blank_state :: state where
  "blank_state = sample_state\<lparr>files := [''in.png'' \<mapsto> ImageFile blank_image]\<rparr>"

text \<open>A detector that reports a region of 20 by 30 pixels, then one of 21 by 21.\<close>

definition boundary_image :: ndarray where
  "boundary_image = replicate 30 (replicate 21 [200, 100, 50])"

definition boundary_contours :: "contour list" where
  "boundary_contours = [[(0, 0), (19, 29)], [(0, 0), (20, 20)]]"

definition boundary_vision :: vision where
  "boundary_vision = sample_vision\<lparr>find_contours := (\<lambda>m. boundary_contours)\<rparr>"

definition boundary_state :: state where
  "boundary_state = sample_state\<lparr>files := [''in.png'' \<mapsto> ImageFile boundary_image]\<rparr>"


section \<open>Strings, slices and shapes\<close>

lemma digit_inj: "d < 10 \<Longrightarrow> e < 10 \<Longrightarrow> digit d = digit e \<Longrightarrow> d = e"
proof -
  assume a: "d < 10" "e < 10" "digit d = digit e"
  have "distinct ''0123456789''" by simp
  moreover have "d < length ''0123456789''" "e < length ''0123456789''" using a by simp_all
  ultimately show "d = e" using a(3) unfolding digit_def
    by (simp only: nth_eq_iff_index_eq)
qed

lemma str_nat_nonempty: "str_nat n \<noteq> []"
  by (subst str_nat.simps) simp

lemma str_nat_inj: "str_nat n = str_nat m \<Longrightarrow> n = m"
proof (induction n arbitrary: m rule: str_nat.induct)
  case (1 n)
  show ?case
  proof (cases "n < 10")
    case True
    then have n: "str_nat n = [digit n]" by (subst str_nat.simps) simp
    show ?thesis
    proof (cases "m < 10")
      case True
      then have "str_nat m = [digit m]" by (subst str_nat.simps) simp
      with n "1.prems" have "digit n = digit m" by simp
      with \<open>n < 10\<close> True show ?thesis by (rule digit_inj)
    next
      case False
      then have "str_nat m = str_nat (m div 10) @ [digit (m mod 10)]"
        by (subst str_nat.simps) simp
      with n "1.prems" have "str_nat (m div 10) = []" by simp
      then show ?thesis using str_nat_nonempty by blast
    qed
  next
    case False
    then have n: "str_nat n = str_nat (n div 10) @ [digit (n mod 10)]"
      by (subst str_nat.simps) simp
    show ?thesis
    proof (cases "m < 10")
      case True
      then have "str_nat m = [digit m]" by (subst str_nat.simps) simp
      with n "1.prems" have "str_nat (n div 10) = []" by simp
      then show ?thesis using str_nat_nonempty by blast
    next
      case m: False
      then have "str_nat m = str_nat (m div 10) @ [digit (m mod 10)]"
        by (subst str_nat.simps) simp
      with n "1.prems" have e: "str_nat (n div 10) = str_nat (m div 10)"
        and d: "digit (n mod 10) = digit (m mod 10)" by simp_all
      from "1.IH" [OF False e] have "n div 10 = m div 10" .
      moreover have "n mod 10 = m mod 10" by (rule digit_inj [OF _ _ d]) simp_all
      ultimately show ?thesis by (metis div_mult_mod_eq)
    qed
  qed
qed

lemma img_path_of_inj: "img_path_of out name i = img_path_of out name j \<Longrightarrow> i = j"
proof -
  assume a: "img_path_of out name i = img_path_of out name j"
  have hd: "take 1 (name @ ''_'' @ s) = take 1 (name @ ''_'' @ t)" for s t :: string
    by (cases name) simp_all
  have "name @ ''_'' @ str_nat (i + 1) @ ''.png'' = name @ ''_'' @ str_nat (j + 1) @ ''.png''"
    using a hd [of "str_nat (i + 1) @ ''.png''" "str_nat (j + 1) @ ''.png''"]
    unfolding img_path_of_def path_join_def by (simp split: if_splits)
  then have "str_nat (i + 1) = str_nat (j + 1)" by simp
  then show "i = j" using str_nat_inj by fastforce
qed

lemma py_slice_inside:
  "0 \<le> a \<Longrightarrow> a \<le> b \<Longrightarrow> b \<le> int (length xs) \<Longrightarrow>
   py_slice a b xs = take (nat (b - a)) (drop (nat a) xs)"
  by (simp add: py_slice_def Let_def min_def)

lemma length_py_slice_inside:
  "0 \<le> a \<Longrightarrow> a \<le> b \<Longrightarrow> b \<le> int (length xs) \<Longrightarrow> length (py_slice a b xs) = nat (b - a)"
  by (simp add: py_slice_inside)


lemma map_upt_const: "(\<And>i. i < n \<Longrightarrow> f i = k) \<Longrightarrow> map f [0..<n] = replicate n k"
proof -
  assume a: "\<And>i. i < n \<Longrightarrow> f i = k"
  have "map f [0..<n] = map (\<lambda>_. k) [0..<n]" by (rule map_cong) (simp_all add: a)
  then show ?thesis by (simp add: map_replicate_const)
qed

lemma shape_uniform:
  "length a = n \<Longrightarrow> (\<And>row. row \<in> set a \<Longrightarrow> length row = m) \<Longrightarrow>
   map (map (\<lambda>_. 1::nat)) a = replicate n (replicate m 1)"
proof -
  assume n: "length a = n" and m: "\<And>row. row \<in> set a \<Longrightarrow> length row = m"
  have "map (map (\<lambda>_. 1::nat)) a = map (\<lambda>_. replicate m 1) a"
    by (rule map_cong) (simp_all add: map_replicate_const m)
  then show ?thesis by (simp add: map_replicate_const n)
qed

lemma shape_draw_zeros:
  "shape (draw_filled cv cs (np_zeros h w)) = replicate (nat h) (replicate (nat w) 1)"
proof -
  define f where "f r = map (\<lambda>c. if fill_covers cv cs (int c, int r)
                 then take (length (np_zeros h w ! r ! c)) [255, 0, 0, 0]
                 else np_zeros h w ! r ! c) [0..<length (np_zeros h w ! r)]" for r
  have draw: "draw_filled cv cs (np_zeros h w) = map f [0..<nat h]"
    unfolding draw_filled_def f_def by (simp add: np_zeros_def)
  have row: "map length (f r) = replicate (nat w) 1" if "r < nat h" for r
    unfolding f_def using that by (simp add: np_zeros_def map_upt_const)
  have "map (\<lambda>r. map length (f r)) [0..<nat h] = replicate (nat h) (replicate (nat w) 1)"
    by (rule map_upt_const) (rule row)
  then show ?thesis by (simp add: shape_def draw comp_def)
qed

lemma boundingRect_within:
  assumes "within a c" and "c \<noteq> []" and "boundingRect c = (x, y, w, h)"
  shows "0 \<le> x" and "0 \<le> y" and "1 \<le> w" and "1 \<le> h"
    and "y + h \<le> int (length a)" and "\<And>row. row \<in> set a \<Longrightarrow> x + w \<le> int (length row)"
proof -
  let ?X = "set (map fst c)" and ?Y = "set (map snd c)"
  have ne: "?X \<noteq> {}" "?Y \<noteq> {}" and fin: "finite ?X" "finite ?Y" using assms(2) by simp_all
  have x: "x = Min ?X" and y: "y = Min ?Y" and w: "w = Max ?X - Min ?X + 1"
    and h: "h = Max ?Y - Min ?Y + 1"
    using assms(2,3) by (simp_all add: boundingRect_def Let_def)
  have inX: "Min ?X \<in> ?X" "Max ?X \<in> ?X" using ne fin by (simp_all del: set_map)
  have inY: "Min ?Y \<in> ?Y" "Max ?Y \<in> ?Y" using ne fin by (simp_all del: set_map)
  have bx: "0 \<le> v \<and> (\<forall>row\<in>set a. v < int (length row))" if "v \<in> ?X" for v
    using that assms(1) by (auto simp: within_def)
  have by': "0 \<le> v \<and> v < int (length a)" if "v \<in> ?Y" for v
    using that assms(1) by (auto simp: within_def)
  show "0 \<le> x" using bx [OF inX(1)] x by simp
  show "0 \<le> y" using by' [OF inY(1)] y by simp
  show "1 \<le> w" using Min_le [OF fin(1) inX(2)] w by simp
  show "1 \<le> h" using Min_le [OF fin(2) inY(2)] h by simp
  show "y + h \<le> int (length a)" using by' [OF inY(2)] y h by simp
  show "x + w \<le> int (length row)" if "row \<in> set a" for row
    using bx [OF inX(2)] that x w by auto
qed

lemma survives_nonempty: "survives c \<Longrightarrow> c \<noteq> []"
  by (auto simp: survives_def boundingRect_def MIN_CONTOUR_WIDTH_def)

lemma crop_rows:
  assumes "within a c" and "survives c" and "boundingRect c = (x, y, w, h)"
  shows "length (crop a c) = nat h" and "\<And>row. row \<in> set (crop a c) \<Longrightarrow> length row = nat w"
proof -
  note b = boundingRect_within [OF assms(1) survives_nonempty [OF assms(2)] assms(3)]
  have rows: "py_slice y (y + h) a = take (nat h) (drop (nat y) a)"
    using b(2,4,5) py_slice_inside [of y "y + h" a] by simp
  show "length (crop a c) = nat h"
    using b(2,4,5) by (simp add: crop_def assms(3) slice2_def rows)
  show "length row = nat w" if "row \<in> set (crop a c)" for row
  proof -
    from that obtain r where r: "r \<in> set (py_slice y (y + h) a)" and row: "row = py_slice x (x + w) r"
      by (auto simp: crop_def assms(3) slice2_def)
    from r have "r \<in> set a" unfolding rows by (meson in_set_dropD in_set_takeD)
    then have "x + w \<le> int (length r)" by (rule b(6))
    then show ?thesis using b(1,3) by (simp add: row length_py_slice_inside)
  qed
qed

lemma bitwise_and_crop:
  assumes "within a c" and "survives c"
  shows "bitwise_and_arrays (crop a c) (crop a c) (region_mask cv c) = Inr (icon cv a c)"
proof -
  obtain x y w h where b: "boundingRect c = (x, y, w, h)" by (cases "boundingRect c") auto
  have "shape (region_mask cv c) = replicate (nat h) (replicate (nat w) 1)"
    by (simp add: region_mask_def b shape_draw_zeros)
  moreover have "map (map (\<lambda>_. 1::nat)) (crop a c) = replicate (nat h) (replicate (nat w) 1)"
    by (rule shape_uniform) (rule crop_rows [OF assms b])+
  ultimately show ?thesis by (simp add: bitwise_and_arrays_def icon_def)
qed


subsection \<open>One iteration of the loop, and the loop\<close>

lemma loop_body_discards: "\<not> survives c \<Longrightarrow> loop_body cv out name a (i, c) st = Inr st"
  by (auto simp: loop_body_def survives_def split: prod.splits)

lemma loop_body_survives:
  assumes "within img c" and "survives c" and "a < length (heap st)" and "heap st ! a = img"
  shows "loop_body cv out name a (i, c) st =
           Inr (st\<lparr>heap := heap st @ [region_mask cv c, icon cv img c],
                    files := (files st)(img_path_of out name i \<mapsto> ImageFile (icon cv img c)),
                    logged := logged st @ [(INFO, ''Saved image: '' @ img_path_of out name i)],
                    extracted_files := extracted_files st @ [img_path_of out name i]\<rparr>)"
proof -
  obtain x y w h where b: "boundingRect c = (x, y, w, h)" by (cases "boundingRect c") auto
  have big: "w > MIN_CONTOUR_WIDTH \<and> h > MIN_CONTOUR_HEIGHT"
    using assms(2) by (simp add: survives_def b)
  have roi: "slice2 y (y + h) x (x + w) img = crop img c" by (simp add: crop_def b)
  have msk: "draw_filled cv [translate c x y] (np_zeros h w) = region_mask cv c"
    by (simp add: region_mask_def b)
  note ba = bitwise_and_crop [OF assms(1,2), of cv]
  show ?thesis
    using assms(3,4) big
    by (simp add: loop_body_def b alloc_def drawContours_def bitwise_and_def deref_def
        imwrite_def logging_def nth_append roi msk ba Let_def)
qed

lemma survivors_Nil: "survivors n [] = []"
  by (simp add: survivors_def)

lemma survivors_Cons:
  "survivors n (c # cs) = (if survives c then (n, c) # survivors (Suc n) cs else survivors (Suc n) cs)"
  by (simp add: survivors_def)

lemma survivors_index: "(i, c) \<in> set (survivors n cs) \<Longrightarrow> n \<le> i"
  by (auto simp: survivors_def in_set_enumerate_eq)

lemma for_each_survivors:
  assumes "\<forall>c\<in>set cs. within img c" and "a < length (heap st)" and "heap st ! a = img"
  shows "\<exists>st'. for_each (loop_body cv out name a) (enumerate n cs) st = Inr st'
           \<and> extracted_files st' =
               extracted_files st @ map (\<lambda>(i, c). img_path_of out name i) (survivors n cs)
           \<and> (\<forall>(i, c)\<in>set (survivors n cs). files st' (img_path_of out name i) = Some (ImageFile (icon cv img c)))
           \<and> (\<forall>p. p \<notin> set (map (\<lambda>(i, c). img_path_of out name i) (survivors n cs))
                 \<longrightarrow> files st' p = files st p)
           \<and> dirs st' = dirs st \<and> archives st' = archives st
           \<and> a < length (heap st') \<and> heap st' ! a = img"
  using assms
proof (induction cs arbitrary: n st)
  case Nil
  then show ?case by (simp add: survivors_Nil)
next
  case (Cons c cs)
  show ?case
  proof (cases "survives c")
    case False
    then have step: "loop_body cv out name a (n, c) st = Inr st" by (rule loop_body_discards)
    from Cons.IH [of st "Suc n"] Cons.prems
    show ?thesis by (simp add: step survivors_Cons False)
  next
    case True
    define st1 where "st1 = st\<lparr>heap := heap st @ [region_mask cv c, icon cv img c],
                    files := (files st)(img_path_of out name n \<mapsto> ImageFile (icon cv img c)),
                    logged := logged st @ [(INFO, ''Saved image: '' @ img_path_of out name n)],
                    extracted_files := extracted_files st @ [img_path_of out name n]\<rparr>"
    have step: "loop_body cv out name a (n, c) st = Inr st1"
      unfolding st1_def using Cons.prems True by (intro loop_body_survives) simp_all
    have inv: "a < length (heap st1)" "heap st1 ! a = img"
      using Cons.prems by (simp_all add: st1_def nth_append)
    from Cons.IH [of st1 "Suc n", OF _ inv] Cons.prems(1)
    obtain st' where run: "for_each (loop_body cv out name a) (enumerate (Suc n) cs) st1 = Inr st'"
      and ex: "extracted_files st' =
               extracted_files st1 @ map (\<lambda>(i, c). img_path_of out name i) (survivors (Suc n) cs)"
      and wr: "\<forall>(i, c)\<in>set (survivors (Suc n) cs). files st' (img_path_of out name i) = Some (ImageFile (icon cv img c))"
      and fr: "\<forall>p. p \<notin> set (map (\<lambda>(i, c). img_path_of out name i) (survivors (Suc n) cs))
                 \<longrightarrow> files st' p = files st1 p"
      and rest: "dirs st' = dirs st1" "archives st' = archives st1"
                "a < length (heap st')" "heap st' ! a = img"
      by auto
    have fresh: "img_path_of out name n \<notin> set (map (\<lambda>(i, c). img_path_of out name i) (survivors (Suc n) cs))"
    proof
      assume "img_path_of out name n \<in> set (map (\<lambda>(i, c). img_path_of out name i) (survivors (Suc n) cs))"
      then obtain i c' where m: "(i, c') \<in> set (survivors (Suc n) cs)"
        and e: "img_path_of out name n = img_path_of out name i" by auto
      from e have "n = i" by (rule img_path_of_inj)
      with survivors_index [OF m] show False by simp
    qed
    have head: "files st' (img_path_of out name n) = Some (ImageFile (icon cv img c))"
      using fr fresh by (simp add: st1_def)
    have frame: "\<forall>p. p \<notin> set (map (\<lambda>(i, c). img_path_of out name i) (survivors n (c # cs)))
                 \<longrightarrow> files st' p = files st p"
      using fr by (auto simp: survivors_Cons True st1_def)
    show ?thesis
      using run ex wr rest head frame
      by (simp add: step survivors_Cons True st1_def)
  qed
qed


lemma loop_body_heap:
  assumes "a < length (heap st)" and "heap st ! a = img"
  shows "a < length (heap (outcome_state (loop_body cv out name a ic st)))
       \<and> heap (outcome_state (loop_body cv out name a ic st)) ! a = img"
  using assms
  by (auto simp: loop_body_def outcome_state_def alloc_def drawContours_def bitwise_and_def
      imwrite_def logging_def Let_def nth_append split: prod.splits sum.splits)

lemma for_each_heap:
  assumes "a < length (heap st)" and "heap st ! a = img"
  shows "a < length (heap (outcome_state (for_each (loop_body cv out name a) xs st)))
       \<and> heap (outcome_state (for_each (loop_body cv out name a) xs st)) ! a = img"
  using assms
proof (induction xs arbitrary: st)
  case Nil
  then show ?case by (simp add: outcome_state_def)
next
  case (Cons x xs)
  show ?case
  proof (cases "loop_body cv out name a x st")
    case (Inl e)
    with loop_body_heap [OF Cons.prems, of cv out name x] show ?thesis by simp
  next
    case (Inr st1)
    with loop_body_heap [OF Cons.prems, of cv out name x]
    have "a < length (heap st1)" "heap st1 ! a = img" by (simp_all add: outcome_state_def)
    from Cons.IH [OF this] show ?thesis by (simp add: Inr)
  qed
qed

lemma extract_load_failure:
  "files st input_path = None \<Longrightarrow>
   extract_multiple_images_from_composite cv input_path output_path zip_output st =
     Inr (st\<lparr>logged := logged st @
            [(INFO, ''Starting icon extraction from '' @ input_path @ '' to '' @ output_path),
             (ERROR, ''Could not load image from '' @ input_path)]\<rparr>)"
  by (simp add: extract_multiple_images_from_composite_def imread_def logging_def)

lemma extract_loaded:
  assumes "files st inp = Some (ImageFile img)"
  shows "extract_multiple_images_from_composite cv inp out z st =
     (case for_each (loop_body cv out (basename (normpath out)) (length (heap st)))
             (enumerate 0 (detect cv img)) (entry_state cv inp out img st) of
        Inl e \<Rightarrow> Inl e
      | Inr st6 \<Rightarrow> Inr (finish out z st6))"
  using assms
  by (simp add: extract_multiple_images_from_composite_def imread_def logging_def alloc_def
      cvtColor_def adaptiveThreshold_def findContours_def makedirs_def detect_def entry_state_def
      finish_def Let_def nth_append split: sum.splits)

section \<open>The run as a whole\<close>

lemma finish_fields:
  "extracted_files (finish out z s) = extracted_files s"
  "files (finish out z s) = files s"
  "dirs (finish out z s) = dirs s"
  "heap (finish out z s) = heap s"
  "archives (finish out z s) =
     (if z then (archives s)(out @ ''.zip'' \<mapsto> (\<lambda>p. if below out p then files s p else None))
      else archives s)"
  by (simp_all add: finish_def logging_def make_archive_def Let_def cong: if_cong)

lemma entry_state_fields:
  "extracted_files (entry_state cv inp out img st) = []"
  "files (entry_state cv inp out img st) = files st"
  "dirs (entry_state cv inp out img st) = insert out (dirs st)"
  "archives (entry_state cv inp out img st) = archives st"
  "length (heap st) < length (heap (entry_state cv inp out img st))"
  "heap (entry_state cv inp out img st) ! length (heap st) = img"
  by (simp_all add: entry_state_def)

lemma extract_run:
  assumes load: "files st inp = Some (ImageFile img)" and inb: "\<forall>c\<in>set (detect cv img). within img c"
  shows "\<exists>st'. extract_multiple_images_from_composite cv inp out z st = Inr st'
     \<and> extracted_files st' = map (\<lambda>(i, c). output_name out i) (survivors 0 (detect cv img))
     \<and> (\<forall>(i, c)\<in>set (survivors 0 (detect cv img)).
           files st' (output_name out i) = Some (ImageFile (icon cv img c)))
     \<and> (\<forall>p. p \<notin> set (map (\<lambda>(i, c). output_name out i) (survivors 0 (detect cv img)))
           \<longrightarrow> files st' p = files st p)
     \<and> dirs st' = insert out (dirs st)
     \<and> archives st' =
         (if z then (archives st)(out @ ''.zip'' \<mapsto> (\<lambda>p. if below out p then files st' p else None))
          else archives st)"
proof -
  let ?e = "entry_state cv inp out img st"
  from for_each_survivors [where st = ?e and a = "length (heap st)" and n = 0 and cv = cv
      and name = "basename (normpath out)" and out = out and img = img and cs = "detect cv img",
      OF inb entry_state_fields(5,6)]
  obtain st6 where run: "for_each (loop_body cv out (basename (normpath out)) (length (heap st)))
        (enumerate 0 (detect cv img)) ?e = Inr st6"
    and f: "extracted_files st6 = map (\<lambda>(i, c). output_name out i) (survivors 0 (detect cv img))"
       "\<forall>(i, c)\<in>set (survivors 0 (detect cv img)). files st6 (output_name out i) = Some (ImageFile (icon cv img c))"
       "\<forall>p. p \<notin> set (map (\<lambda>(i, c). output_name out i) (survivors 0 (detect cv img)))
           \<longrightarrow> files st6 p = files st p"
       "dirs st6 = insert out (dirs st)" "archives st6 = archives st"
    unfolding output_name_def entry_state_fields by auto
  have "extract_multiple_images_from_composite cv inp out z st = Inr (finish out z st6)"
    by (simp add: extract_loaded [OF load] run)
  with f show ?thesis by (simp add: finish_fields cong: if_cong)
qed

subsection \<open>File names and survivors\<close>

lemma output_name_inj: "output_name out i = output_name out j \<Longrightarrow> i = j"
  unfolding output_name_def by (rule img_path_of_inj)

lemma survivors_length: "length (survivors n cs) = length (filter survives cs)"
  by (induction cs arbitrary: n) (simp_all add: survivors_Nil survivors_Cons)

lemma survivors_member:
  "(i, c) \<in> set (survivors 0 cs) \<longleftrightarrow> i < length cs \<and> cs ! i = c \<and> survives c"
  by (auto simp: survivors_def in_set_enumerate_eq)


lemma survivors_all:
  "\<forall>c\<in>set cs. survives c \<Longrightarrow>
   map (\<lambda>(i, c). f i) (survivors n cs) = map f [n..<n + length cs]"
proof (induction cs arbitrary: n)
  case Nil
  show ?case by (simp add: survivors_Nil)
next
  case (Cons c cs)
  have u: "[n..<n + length (c # cs)] = n # [Suc n..<Suc n + length cs]"
    by (subst upt_rec) simp
  from Cons.prems have "map (\<lambda>(i, c). f i) (survivors (Suc n) cs) = map f [Suc n..<Suc n + length cs]"
    by (intro Cons.IH) simp
  with Cons.prems show ?case unfolding u by (simp add: survivors_Cons)
qed

lemma name_listed_iff:
  "output_name out i \<in> set (map (\<lambda>(i, c). output_name out i) (survivors 0 cs))
     \<longleftrightarrow> i < length cs \<and> survives (cs ! i)"
proof
  assume "output_name out i \<in> set (map (\<lambda>(i, c). output_name out i) (survivors 0 cs))"
  then obtain j c where m: "(j, c) \<in> set (survivors 0 cs)"
    and e: "output_name out i = output_name out j" by auto
  from e have "i = j" by (rule output_name_inj)
  with m show "i < length cs \<and> survives (cs ! i)" by (simp add: survivors_member)
next
  assume "i < length cs \<and> survives (cs ! i)"
  then have "(i, cs ! i) \<in> set (survivors 0 cs)" by (simp add: survivors_member)
  then show "output_name out i \<in> set (map (\<lambda>(i, c). output_name out i) (survivors 0 cs))"
    by force
qed

subsection \<open>The sample runs\<close>

lemma sample_load: "files sample_state ''in.png'' = Some (ImageFile sample_image)"
  by (simp add: sample_state_def)

lemma sample_detect: "detect sample_vision img = sample_contours"
  by (simp add: detect_def sample_vision_def)

lemma sample_within: "\<forall>c\<in>set (detect sample_vision sample_image). within sample_image c"
  by (simp add: sample_detect sample_contours_def within_def sample_image_def)

lemma sample_survivors:
  "survivors 0 sample_contours = [(1, [(1, 1), (22, 1), (22, 21), (1, 21)])]"
  by (simp add: survivors_def sample_contours_def survives_def boundingRect_def
      MIN_CONTOUR_WIDTH_def MIN_CONTOUR_HEIGHT_def enumerate_eq_zip upt_conv_Cons)

lemma out_names:
  "output_name ''out'' 0 = ''out/out_1.png''" "output_name ''out'' (Suc 0) = ''out/out_2.png''"
  by code_simp+

lemma boundary_load: "files boundary_state ''in.png'' = Some (ImageFile boundary_image)"
  by (simp add: boundary_state_def sample_state_def)

lemma boundary_detect: "detect boundary_vision img = boundary_contours"
  by (simp add: detect_def boundary_vision_def sample_vision_def)

lemma boundary_within: "\<forall>c\<in>set (detect boundary_vision boundary_image). within boundary_image c"
  by (simp add: boundary_detect boundary_contours_def within_def boundary_image_def)

lemma boundary_rects:
  "boundingRect (boundary_contours ! 0) = (0, 0, 20, 30)"
  "boundingRect (boundary_contours ! 1) = (0, 0, 21, 21)"
  by (simp_all add: boundary_contours_def boundingRect_def)

subsection \<open>Directories, and runs that write nothing\<close>

lemma loop_body_dirs: "dirs (outcome_state (loop_body cv out name a ic st)) = dirs st"
  by (auto simp: loop_body_def outcome_state_def alloc_def drawContours_def bitwise_and_def
      imwrite_def logging_def Let_def split: prod.splits sum.splits)

lemma for_each_dirs:
  "dirs (outcome_state (for_each (loop_body cv out name a) xs st)) = dirs st"
proof (induction xs arbitrary: st)
  case Nil
  show ?case by (simp add: outcome_state_def)
next
  case (Cons x xs)
  show ?case
  proof (cases "loop_body cv out name a x st")
    case (Inl e)
    with loop_body_dirs [of cv out name a x st] show ?thesis by simp
  next
    case (Inr st1)
    with loop_body_dirs [of cv out name a x st] have "dirs st1 = dirs st"
      by (simp add: outcome_state_def)
    with Cons.IH [of st1] show ?thesis by (simp add: Inr)
  qed
qed

lemma outcome_extract_loaded:
  assumes "files st inp = Some (ImageFile img)"
  shows "heap (outcome_state (extract_multiple_images_from_composite cv inp out z st)) =
         heap (outcome_state (for_each (loop_body cv out (basename (normpath out)) (length (heap st)))
             (enumerate 0 (detect cv img)) (entry_state cv inp out img st)))"
    and "dirs (outcome_state (extract_multiple_images_from_composite cv inp out z st)) =
         dirs (outcome_state (for_each (loop_body cv out (basename (normpath out)) (length (heap st)))
             (enumerate 0 (detect cv img)) (entry_state cv inp out img st)))"
  by (simp_all add: extract_loaded [OF assms] outcome_state_def finish_fields split: sum.splits)

lemma for_each_none_survive:
  "\<forall>c\<in>set cs. \<not> survives c \<Longrightarrow> for_each (loop_body cv out name a) (enumerate n cs) st = Inr st"
  by (induction cs arbitrary: n) (simp_all add: loop_body_discards)

lemma survivors_empty: "survivors n cs = [] \<longleftrightarrow> (\<forall>c\<in>set cs. \<not> survives c)"
proof -
  have "survivors n cs = [] \<longleftrightarrow> filter survives cs = []"
    using survivors_length [of n cs] by (metis length_0_conv)
  then show ?thesis by (simp add: filter_empty_conv)
qed

subsection \<open>The threshold of a uniform image\<close>

lemma thresh_inv_same: "thresh_inv v v = 0"
  by (simp add: thresh_inv_def)

lemma threshold_uniform:
  assumes uni: "\<forall>row\<in>set img. \<forall>p\<in>set row. p = p0"
    and mean: "\<forall>g v r c. (\<forall>row\<in>set g. \<forall>p\<in>set row. p = [v]) \<and> r < length g \<and> c < length (g ! r)
                 \<longrightarrow> local_mean cv g r c = v"
  shows "\<forall>row\<in>set (threshold cv (bgr2gray cv img)). \<forall>p\<in>set row. p = [0]"
proof -
  let ?g = "bgr2gray cv img" and ?v = "gray_of cv p0"
  have g: "\<forall>row\<in>set ?g. \<forall>p\<in>set row. p = [?v]"
    using uni by (auto simp: bgr2gray_def)
  have px: "?g ! r ! c = [?v]" and m: "local_mean cv ?g r c = ?v"
    if "r < length ?g" "c < length (?g ! r)" for r c
  proof -
    from that have "?g ! r \<in> set ?g" "?g ! r ! c \<in> set (?g ! r)" by (simp_all only: nth_mem)
    with g show "?g ! r ! c = [?v]" by blast
    from mean g that show "local_mean cv ?g r c = ?v" by blast
  qed
  show ?thesis
    unfolding threshold_def by (auto simp: px m thresh_inv_same)
qed

lemma blank_load: "files blank_state ''in.png'' = Some (ImageFile blank_image)"
  by (simp add: blank_state_def sample_state_def)

lemma blank_white: "\<forall>row\<in>set blank_image. \<forall>p\<in>set row. p = [255, 255, 255]"
  by (simp add: blank_image_def)

lemma blank_mean:
  "\<forall>g v r c. (\<forall>row\<in>set g. \<forall>p\<in>set row. p = [v]) \<and> r < length g \<and> c < length (g ! r)
           \<longrightarrow> local_mean blank_vision g r c = v"
proof (intro allI impI)
  fix g :: ndarray and v r c
  assume a: "(\<forall>row\<in>set g. \<forall>p\<in>set row. p = [v]) \<and> r < length g \<and> c < length (g ! r)"
  then have "g ! r \<in> set g" "g ! r ! c \<in> set (g ! r)" by (simp_all only: nth_mem)
  with a have "g ! r ! c = [v]" by blast
  then show "local_mean blank_vision g r c = v"
    by (simp add: blank_vision_def sample_vision_def)
qed

lemma blank_detector:
  "\<forall>m. (\<forall>row\<in>set m. \<forall>p\<in>set row. p = [0]) \<longrightarrow> find_contours blank_vision m = []"
  by (simp add: blank_vision_def sample_vision_def)

lemma blank_detect: "detect blank_vision blank_image = []"
proof -
  have "\<forall>row\<in>set (threshold blank_vision (bgr2gray blank_vision blank_image)). \<forall>p\<in>set row. p = [0]"
    using blank_white blank_mean by (rule threshold_uniform)
  with blank_detector show ?thesis by (simp add: detect_def)
qed

subsection \<open>The masked crop\<close>

lemma set_py_slice: "set (py_slice a b xs) \<subseteq> set xs"
  by (auto simp: py_slice_def Let_def dest: in_set_takeD in_set_dropD)

lemma crop_pixels:
  assumes "row \<in> set (crop img c)" and "p \<in> set row"
  shows "\<exists>row'\<in>set img. p \<in> set row'"
proof -
  obtain x y w h where b: "boundingRect c = (x, y, w, h)" by (cases "boundingRect c") auto
  from assms(1) obtain r where r: "r \<in> set (py_slice y (y + h) img)"
    and row: "row = py_slice x (x + w) r"
    by (auto simp: crop_def b slice2_def)
  from r have "r \<in> set img" by (rule subsetD [OF set_py_slice])
  moreover from assms(2) have "p \<in> set r" unfolding row by (rule subsetD [OF set_py_slice])
  ultimately show ?thesis by blast
qed

lemma region_mask_spec: "region_mask cv c = spec_mask cv c"
proof -
  obtain x y w h where b: "boundingRect c = (x, y, w, h)" by (cases "boundingRect c") auto
  have "draw_filled cv cs (np_zeros h w) =
        map (\<lambda>r. map (\<lambda>col. if fill_covers cv cs (int col, int r) then [255] else [0]) [0..<nat w])
          [0..<nat h]" for cs
    unfolding draw_filled_def by (simp add: np_zeros_def cong: map_cong)
  then show ?thesis by (simp add: region_mask_def spec_mask_def translate_def b)
qed

lemma spec_mask_values: "row \<in> set (spec_mask cv c) \<Longrightarrow> m \<in> set row \<Longrightarrow> m = [255] \<or> m = [0]"
  by (auto simp: spec_mask_def split: prod.splits)

lemma and_pixel_spec: "m = [255] \<or> m = [0] \<Longrightarrow> and_pixel p p m = spec_and_pixel p m"
proof -
  have "map2 (AND) p p = p" by (induction p) simp_all
  moreover have "(255 :: u8) = - 1" by simp
  then have "map (\<lambda>ch. ch AND (255 :: u8)) p = p" by (simp only: and.right_neutral map_ident)
  ultimately show "m = [255] \<or> m = [0] \<Longrightarrow> and_pixel p p m = spec_and_pixel p m"
    by (auto simp: and_pixel_def spec_and_pixel_def)
qed

lemma map2_self: "map2 (\<lambda>x (y, z). f x y z) xs (zip xs zs) = map2 (\<lambda>x z. f x x z) xs zs"
  by (induction xs zs rule: list_induct2') simp_all

lemma and_masked_spec:
  assumes "\<And>row v. row \<in> set m \<Longrightarrow> v \<in> set row \<Longrightarrow> v = [255] \<or> v = [0]"
  shows "and_masked a a m = spec_and a m"
proof -
  have row: "map2 (\<lambda>p pm. and_pixel p p pm) r rm = map2 spec_and_pixel r rm" if "rm \<in> set m" for r rm
    by (rule map_cong) (auto simp: and_pixel_spec dest!: set_zip_rightD assms [OF that])
  have "and_masked a a m = map2 (\<lambda>r rm. map2 (\<lambda>p pm. and_pixel p p pm) r rm) a m"
    by (simp add: and_masked_def map2_self)
  also have "\<dots> = map2 (map2 spec_and_pixel) a m"
    by (rule map_cong) (auto simp: row dest!: set_zip_rightD)
  finally show ?thesis by (simp add: spec_and_def)
qed

lemma icon_spec: "icon cv img c = spec_and (crop img c) (spec_mask cv c)"
  unfolding icon_def region_mask_spec by (rule and_masked_spec) (rule spec_mask_values)

lemma spec_mask_rows:
  assumes "boundingRect c = (x, y, w, h)"
  shows "length (spec_mask cv c) = nat h" and "\<And>row. row \<in> set (spec_mask cv c) \<Longrightarrow> length row = nat w"
  using assms by (auto simp: spec_mask_def)

lemma spec_and_rows:
  assumes "length a = n" and "length m = n"
    and "\<And>row. row \<in> set a \<Longrightarrow> length row = k" and "\<And>row. row \<in> set m \<Longrightarrow> length row = k"
  shows "length (spec_and a m) = n" and "\<And>row. row \<in> set (spec_and a m) \<Longrightarrow> length row = k"
proof -
  show "length (spec_and a m) = n" using assms(1,2) by (simp add: spec_and_def)
  show "length row = k" if "row \<in> set (spec_and a m)" for row
  proof -
    from that obtain r rm where "(r, rm) \<in> set (zip a m)" and row: "row = map2 spec_and_pixel r rm"
      by (auto simp: spec_and_def)
    then have "r \<in> set a" "rm \<in> set m" by (auto dest: set_zip_leftD set_zip_rightD)
    with assms(3,4) show ?thesis by (simp add: row)
  qed
qed

lemma spec_and_channels:
  assumes a: "\<And>row p. row \<in> set a \<Longrightarrow> p \<in> set row \<Longrightarrow> length p = k"
    and m: "\<And>row v. row \<in> set m \<Longrightarrow> v \<in> set row \<Longrightarrow> v = [255] \<or> v = [0]"
    and "row \<in> set (spec_and a m)" and "p \<in> set row"
  shows "length p = k"
proof -
  from assms(3) obtain r rm where z: "(r, rm) \<in> set (zip a m)" and row: "row = map2 spec_and_pixel r rm"
    by (auto simp: spec_and_def)
  from assms(4) row obtain q v where z': "(q, v) \<in> set (zip r rm)" and p: "p = spec_and_pixel q v"
    by auto
  from z z' have "r \<in> set a" "q \<in> set r" "rm \<in> set m" "v \<in> set rm"
    by (auto dest: set_zip_leftD set_zip_rightD)
  with a m have "length q = k" "v = [255] \<or> v = [0]" by blast+
  then show ?thesis by (auto simp: p spec_and_pixel_def)
qed

lemma spec_and_background:
  assumes "r < length (spec_and a m)" and "col < length (spec_and a m ! r)" and "m ! r ! col = [0]"
  shows "spec_and a m ! r ! col = map (\<lambda>_. 0) (a ! r ! col)"
  using assms by (simp add: spec_and_def spec_and_pixel_def)

lemma zeros3: "length p = 3 \<Longrightarrow> map (\<lambda>_. 0 :: u8) p = [0, 0, 0]"
  by (auto simp: numeral_3_eq_3 length_Suc_conv)

lemma take_drop_nth: "k + n \<le> length xs \<Longrightarrow> take n (drop k xs) = map (\<lambda>i. xs ! (k + i)) [0..<n]"
  by (rule nth_equalityI) simp_all

lemma crop_spec:
  assumes "within img c" and "survives c"
  shows "crop img c = spec_crop img c"
proof -
  obtain x y w h where b: "boundingRect c = (x, y, w, h)" by (cases "boundingRect c") auto
  note bw = boundingRect_within [OF assms(1) survives_nonempty [OF assms(2)] b]
  have fit: "nat y + nat h \<le> length img" using bw(2,4,5) by linarith
  have rows: "py_slice y (y + h) img = map (\<lambda>r. img ! (nat y + r)) [0..<nat h]"
    using bw(2,4,5) py_slice_inside [of y "y + h" img] take_drop_nth [OF fit] by simp
  have row: "py_slice x (x + w) (img ! (nat y + r)) =
             map (\<lambda>col. img ! (nat y + r) ! (nat x + col)) [0..<nat w]" if "r < nat h" for r
  proof -
    from that fit have "img ! (nat y + r) \<in> set img" by (intro nth_mem) simp
    then have le: "x + w \<le> int (length (img ! (nat y + r)))" by (rule bw(6))
    then have "nat x + nat w \<le> length (img ! (nat y + r))" using bw(1,3) by linarith
    from take_drop_nth [OF this] le bw(1,3)
    show ?thesis by (simp add: py_slice_inside)
  qed
  show ?thesis
    by (simp add: crop_def spec_crop_def b slice2_def rows row cong: map_cong)
qed

lemma spec_and_nth:
  "r < length a \<Longrightarrow> r < length m \<Longrightarrow> col < length (a ! r) \<Longrightarrow> col < length (m ! r) \<Longrightarrow>
   spec_and a m ! r ! col = spec_and_pixel (a ! r ! col) (m ! r ! col)"
  by (simp add: spec_and_def)

lemma spec_and_pixel_values:
  "spec_and_pixel p [255] = p" "length p = 3 \<Longrightarrow> spec_and_pixel p [0] = [0, 0, 0]"
proof -
  have "(255 :: u8) = - 1" by simp
  then show "spec_and_pixel p [255] = p"
    by (simp only: spec_and_pixel_def list.case and.right_neutral map_ident)
  show "length p = 3 \<Longrightarrow> spec_and_pixel p [0] = [0, 0, 0]"
    by (simp add: spec_and_pixel_def zeros3)
qed

lemma masked_pixel:
  assumes "within img c" and "survives c" and "\<forall>row\<in>set img. \<forall>p\<in>set row. length p = 3"
    and b: "boundingRect c = (x, y, w, h)" and r: "r < nat h" and col: "col < nat w"
  shows "spec_and (spec_crop img c) (spec_mask cv c) ! r ! col =
           (if fill_covers cv [map (\<lambda>(px, py). (px - x, py - y)) c] (int col, int r)
            then img ! (nat y + r) ! (nat x + col) else [0, 0, 0])"
proof -
  note bw = boundingRect_within [OF assms(1) survives_nonempty [OF assms(2)] b]
  from r bw(2,4,5) have "nat y + r < length img" by linarith
  then have row: "img ! (nat y + r) \<in> set img" by (rule nth_mem)
  from bw(6) [OF row] col bw(1,3) have "nat x + col < length (img ! (nat y + r))" by linarith
  then have "img ! (nat y + r) ! (nat x + col) \<in> set (img ! (nat y + r))" by (rule nth_mem)
  with row assms(3) have three: "length (img ! (nat y + r) ! (nat x + col)) = 3" by blast
  have "spec_and (spec_crop img c) (spec_mask cv c) ! r ! col =
        spec_and_pixel (spec_crop img c ! r ! col) (spec_mask cv c ! r ! col)"
    using r col by (intro spec_and_nth) (simp_all add: spec_crop_def spec_mask_def b)
  also have "spec_crop img c ! r ! col = img ! (nat y + r) ! (nat x + col)"
    using r col by (simp add: spec_crop_def b)
  also have "spec_mask cv c ! r ! col =
      (if fill_covers cv [map (\<lambda>(px, py). (px - x, py - y)) c] (int col, int r) then [255] else [0])"
    using r col by (simp add: spec_mask_def b)
  finally show ?thesis using three by (simp add: spec_and_pixel_values)
qed

lemma stale_load: "files stale_state ''in.png'' = Some (ImageFile sample_image)"
  by (simp add: stale_state_def sample_state_def)

lemma rejected_load: "files rejected_state ''huge.png'' = Some RejectedFile"
  by (simp add: rejected_state_def sample_state_def)

lemma extract_rejected:
  "files st input_path = Some RejectedFile \<Longrightarrow>
   extract_multiple_images_from_composite cv input_path output_path zip_output st =
     Inl (CvError, st\<lparr>logged := logged st @
            [(INFO, ''Starting icon extraction from '' @ input_path @ '' to '' @ output_path)]\<rparr>)"
  by (simp add: extract_multiple_images_from_composite_def imread_def logging_def)

lemma extract_undecodable:
  "files st input_path = Some UndecodableFile \<Longrightarrow>
   extract_multiple_images_from_composite cv input_path output_path zip_output st =
     Inr (st\<lparr>logged := logged st @
            [(INFO, ''Starting icon extraction from '' @ input_path @ '' to '' @ output_path),
             (ERROR, ''Could not load image from '' @ input_path)]\<rparr>)"
  by (simp add: extract_multiple_images_from_composite_def imread_def logging_def)

lemma sample_pixels:
  "spec_and (spec_crop sample_image [(1, 1), (22, 1), (22, 21), (1, 21)])
     (spec_mask sample_vision [(1, 1), (22, 1), (22, 21), (1, 21)]) ! 0 ! 0 = [0, 0, 0]"
  "spec_and (spec_crop sample_image [(1, 1), (22, 1), (22, 21), (1, 21)])
     (spec_mask sample_vision [(1, 1), (22, 1), (22, 21), (1, 21)]) ! 1 ! 2 = [3, 2, 50]"
  by code_simp+

subsection \<open>More of the sample runs\<close>

lemma sample_region:
  "(1, [(1, 1), (22, 1), (22, 21), (1, 21)]) \<in> set (survivors 0 (detect sample_vision sample_image))"
  by (simp add: sample_detect sample_survivors)

lemma sample_rect: "boundingRect [(1, 1), (22, 1), (22, 21), (1, 21)] = (1, 1, 22, 21)"
  by (simp add: boundingRect_def)

lemma sample_three: "\<forall>row\<in>set sample_image. \<forall>p\<in>set row. length p = 3"
  by (simp add: sample_image_def)

lemma sample_same_input:
  "files (outcome_state
     (extract_multiple_images_from_composite sample_vision ''in.png'' ''out'' True sample_state))
     ''in.png'' = Some (ImageFile sample_image)"
proof -
  from extract_run [OF sample_load sample_within, of "''out''" True]
  obtain st' where
    "extract_multiple_images_from_composite sample_vision ''in.png'' ''out'' True sample_state = Inr st'"
    and "\<forall>p. p \<notin> set (map (\<lambda>(i, c). output_name ''out'' i)
            (survivors 0 (detect sample_vision sample_image))) \<longrightarrow> files st' p = files sample_state p"
    by blast
  then show ?thesis
    using sample_load by (simp add: outcome_state_def sample_detect sample_survivors out_names)
qed

lemma stale_same_input:
  "files (outcome_state
     (extract_multiple_images_from_composite sample_vision ''in.png'' ''out'' True stale_state))
     ''in.png'' = Some (ImageFile sample_image)"
proof -
  from extract_run [OF stale_load sample_within, of "''out''" True]
  obtain st' where
    "extract_multiple_images_from_composite sample_vision ''in.png'' ''out'' True stale_state = Inr st'"
    and "\<forall>p. p \<notin> set (map (\<lambda>(i, c). output_name ''out'' i)
            (survivors 0 (detect sample_vision sample_image))) \<longrightarrow> files st' p = files stale_state p"
    by blast
  then show ?thesis
    using stale_load by (simp add: outcome_state_def sample_detect sample_survivors out_names)
qed

lemma numbering_names_stale:
  "extract_multiple_images_from_composite sample_vision ''in.png'' ''out'' True stale_state = Inr st1
   \<Longrightarrow> extracted_files st1 = [''out/out_2.png'']"
  using extract_run [OF stale_load sample_within, of "''out''" True]
  by (auto simp: sample_detect sample_survivors out_names)

section \<open>The properties\<close>

text \<open>
  C1, as stated, fails: the specification numbers the \<open>K\<close> files written \<open>1..K\<close> with no
  gap however many small contours were dropped. In the sample run the detector reports a
  speck and then a region of 22 by 21 pixels; one file is written, and its name carries
  the index 2, not 1: when the run ends there is a file \<^verbatim>\<open>out/out_2.png\<close> and no file
  \<^verbatim>\<open>out/out_1.png\<close>.
\<close>

theorem consecutive_numbering_counterexample:
  "extracted_files (outcome_state
      (extract_multiple_images_from_composite sample_vision ''in.png'' ''out'' False sample_state))
     = [''out/out_2.png'']
   \<and> consecutive_names ''out'' 1 = [''out/out_1.png'']
   \<and> extracted_files (outcome_state
      (extract_multiple_images_from_composite sample_vision ''in.png'' ''out'' False sample_state))
     \<noteq> consecutive_names ''out''
         (length (extracted_files (outcome_state
           (extract_multiple_images_from_composite sample_vision ''in.png'' ''out'' False sample_state))))
   \<and> files (outcome_state
      (extract_multiple_images_from_composite sample_vision ''in.png'' ''out'' False sample_state))
       ''out/out_2.png''
     = Some (ImageFile (icon sample_vision sample_image [(1, 1), (22, 1), (22, 21), (1, 21)]))
   \<and> files (outcome_state
      (extract_multiple_images_from_composite sample_vision ''in.png'' ''out'' False sample_state))
       ''out/out_1.png'' = None"
proof -
  from extract_run [OF sample_load sample_within, of "''out''" False]
  obtain st' where
    "extract_multiple_images_from_composite sample_vision ''in.png'' ''out'' False sample_state = Inr st'"
    and "extracted_files st' = [''out/out_2.png'']"
    and "files st' ''out/out_2.png'' =
           Some (ImageFile (icon sample_vision sample_image [(1, 1), (22, 1), (22, 21), (1, 21)]))"
    and "files st' ''out/out_1.png'' = files sample_state ''out/out_1.png''"
    by (auto simp: sample_detect sample_survivors out_names)
  then show ?thesis
    by (simp add: outcome_state_def consecutive_names_def out_names sample_state_def)
qed

text \<open>
  C1, amended. For an image that loads, the file of a surviving region is written under
  the position, counted from 1, of its contour among all the contours the detector
  reported, dropped ones included: the paths written are those names in detection order,
  and when the run ends each of them holds the masked crop of its region. When every
  contour survives, the names are \<open>1..K\<close> with no gap.
\<close>

theorem numbering_follows_detection_index:
  assumes "files st input_path = Some (ImageFile img)"
    and "\<forall>c\<in>set (detect cv img). within img c"
  shows "\<exists>st'. extract_multiple_images_from_composite cv input_path output_path zip_output st = Inr st'
     \<and> extracted_files st' = map (\<lambda>(i, c). output_name output_path i) (survivors 0 (detect cv img))
     \<and> (\<forall>(i, c)\<in>set (survivors 0 (detect cv img)).
           files st' (output_name output_path i) = Some (ImageFile (icon cv img c)))
     \<and> (\<forall>p. p \<notin> set (map (\<lambda>(i, c). output_name output_path i) (survivors 0 (detect cv img)))
           \<longrightarrow> files st' p = files st p)
     \<and> ((\<forall>c\<in>set (detect cv img). survives c)
          \<longrightarrow> extracted_files st' = consecutive_names output_path (length (extracted_files st')))"
proof -
  from extract_run [OF assms, of output_path zip_output]
  obtain st' where run:
    "extract_multiple_images_from_composite cv input_path output_path zip_output st = Inr st'"
    and ex: "extracted_files st' = map (\<lambda>(i, c). output_name output_path i) (survivors 0 (detect cv img))"
    and wr: "\<forall>(i, c)\<in>set (survivors 0 (detect cv img)).
           files st' (output_name output_path i) = Some (ImageFile (icon cv img c))"
    and fr: "\<forall>p. p \<notin> set (map (\<lambda>(i, c). output_name output_path i) (survivors 0 (detect cv img)))
           \<longrightarrow> files st' p = files st p"
    by auto
  have "extracted_files st' = consecutive_names output_path (length (extracted_files st'))"
    if all: "\<forall>c\<in>set (detect cv img). survives c"
  proof -
    have "extracted_files st' = map (output_name output_path) [0..<length (detect cv img)]"
      using survivors_all [OF all, of "output_name output_path" 0] ex by simp
    then show ?thesis by (simp add: consecutive_names_def)
  qed
  with run ex wr fr show ?thesis by blast
qed

theorem numbering_follows_detection_index_witness:
  "\<exists>st'. extract_multiple_images_from_composite sample_vision ''in.png'' ''out'' False sample_state = Inr st'
     \<and> extracted_files st' = [''out/out_2.png'']
     \<and> files st' ''out/out_2.png'' =
         Some (ImageFile (icon sample_vision sample_image [(1, 1), (22, 1), (22, 21), (1, 21)]))
     \<and> files st' ''out/out_1.png'' = None"
proof -
  from numbering_follows_detection_index [OF sample_load sample_within, of "''out''" False]
  obtain st' where
    "extract_multiple_images_from_composite sample_vision ''in.png'' ''out'' False sample_state = Inr st'"
    and "extracted_files st' = [''out/out_2.png'']"
    and "files st' ''out/out_2.png'' =
           Some (ImageFile (icon sample_vision sample_image [(1, 1), (22, 1), (22, 21), (1, 21)]))"
    and "files st' ''out/out_1.png'' = files sample_state ''out/out_1.png''"
    by (auto simp: sample_detect sample_survivors out_names)
  then show ?thesis by (simp add: sample_state_def)
qed



text \<open>
  C3. For an image that loads, a file is written for a detected region if and only if the
  bounding box of the region is wider than 20 and higher than 20 pixels. For such a
  region the path of the region is among the paths written and holds the masked crop
  when the run ends; for any other region the path is not among the paths written and
  holds what it held before the run, if anything. A region whose bounding box is 20 by 30
  is not written; one whose bounding box is 21 by 21 is.
\<close>

theorem written_iff_larger_than_threshold:
  assumes "files st input_path = Some (ImageFile img)"
    and "\<forall>c\<in>set (detect cv img). within img c"
  shows "\<exists>st'. extract_multiple_images_from_composite cv input_path output_path zip_output st = Inr st'
     \<and> (\<forall>i<length (detect cv img).
           output_name output_path i \<in> set (extracted_files st')
             \<longleftrightarrow> (case boundingRect (detect cv img ! i) of (x, y, w, h) \<Rightarrow> 20 < w \<and> 20 < h))
     \<and> (\<forall>i<length (detect cv img).
           (case boundingRect (detect cv img ! i) of (x, y, w, h) \<Rightarrow> 20 < w \<and> 20 < h)
             \<longrightarrow> files st' (output_name output_path i)
                   = Some (ImageFile (icon cv img (detect cv img ! i))))
     \<and> (\<forall>i<length (detect cv img).
           \<not> (case boundingRect (detect cv img ! i) of (x, y, w, h) \<Rightarrow> 20 < w \<and> 20 < h)
             \<longrightarrow> files st' (output_name output_path i) = files st (output_name output_path i))
     \<and> (\<forall>i<length (detect cv img). \<forall>x y. boundingRect (detect cv img ! i) = (x, y, 20, 30)
           \<longrightarrow> output_name output_path i \<notin> set (extracted_files st')
             \<and> files st' (output_name output_path i) = files st (output_name output_path i))
     \<and> (\<forall>i<length (detect cv img). \<forall>x y. boundingRect (detect cv img ! i) = (x, y, 21, 21)
           \<longrightarrow> output_name output_path i \<in> set (extracted_files st')
             \<and> files st' (output_name output_path i)
                   = Some (ImageFile (icon cv img (detect cv img ! i))))"
proof -
  let ?big = "\<lambda>i. case boundingRect (detect cv img ! i) of (x, y, w, h) \<Rightarrow> 20 < w \<and> 20 < h"
  from extract_run [OF assms, of output_path zip_output]
  obtain st' where run:
    "extract_multiple_images_from_composite cv input_path output_path zip_output st = Inr st'"
    and ex: "extracted_files st' = map (\<lambda>(i, c). output_name output_path i) (survivors 0 (detect cv img))"
    and wr: "\<forall>(i, c)\<in>set (survivors 0 (detect cv img)).
           files st' (output_name output_path i) = Some (ImageFile (icon cv img c))"
    and fr: "\<forall>p. p \<notin> set (map (\<lambda>(i, c). output_name output_path i) (survivors 0 (detect cv img)))
           \<longrightarrow> files st' p = files st p"
    by auto
  have big: "?big i \<longleftrightarrow> survives (detect cv img ! i)" for i
    by (simp add: survives_def MIN_CONTOUR_WIDTH_def MIN_CONTOUR_HEIGHT_def)
  have iff: "output_name output_path i \<in> set (extracted_files st') \<longleftrightarrow> ?big i"
    if "i < length (detect cv img)" for i
    unfolding ex name_listed_iff big using that by simp
  have yes: "files st' (output_name output_path i) = Some (ImageFile (icon cv img (detect cv img ! i)))"
    if "i < length (detect cv img)" "?big i" for i
  proof -
    from that have "(i, detect cv img ! i) \<in> set (survivors 0 (detect cv img))"
      by (simp add: survivors_member big)
    from bspec [OF wr this] show ?thesis by simp
  qed
  have no: "files st' (output_name output_path i) = files st (output_name output_path i)"
    if "i < length (detect cv img)" "\<not> ?big i" for i
  proof -
    from iff [OF that(1)] that(2)
    have "output_name output_path i \<notin> set (extracted_files st')" by simp
    then have "output_name output_path i
        \<notin> set (map (\<lambda>(i, c). output_name output_path i) (survivors 0 (detect cv img)))"
      unfolding ex .
    with fr show ?thesis by simp
  qed
  have small: "output_name output_path i \<notin> set (extracted_files st')"
      "files st' (output_name output_path i) = files st (output_name output_path i)"
    if "i < length (detect cv img)" "boundingRect (detect cv img ! i) = (x, y, 20, 30)" for i x y
    using iff [OF that(1)] no [OF that(1)] that(2) by simp_all
  have large: "output_name output_path i \<in> set (extracted_files st')"
      "files st' (output_name output_path i) = Some (ImageFile (icon cv img (detect cv img ! i)))"
    if "i < length (detect cv img)" "boundingRect (detect cv img ! i) = (x, y, 21, 21)" for i x y
    using iff [OF that(1)] yes [OF that(1)] that(2) by simp_all
  show ?thesis
  proof (intro exI [of _ st'] conjI allI impI)
    show "extract_multiple_images_from_composite cv input_path output_path zip_output st = Inr st'"
      by (rule run)
  qed (rule iff yes no small large; assumption)+
qed


theorem written_iff_larger_than_threshold_witness:
  "\<exists>st'. extract_multiple_images_from_composite boundary_vision ''in.png'' ''out'' False boundary_state
           = Inr st'
     \<and> boundingRect (boundary_contours ! 0) = (0, 0, 20, 30)
     \<and> ''out/out_1.png'' \<notin> set (extracted_files st')
     \<and> files st' ''out/out_1.png'' = None
     \<and> boundingRect (boundary_contours ! 1) = (0, 0, 21, 21)
     \<and> ''out/out_2.png'' \<in> set (extracted_files st')
     \<and> files st' ''out/out_2.png''
         = Some (ImageFile (icon boundary_vision boundary_image (boundary_contours ! 1)))"
proof -
  from written_iff_larger_than_threshold [OF boundary_load boundary_within, of "''out''" False]
  have "\<exists>st'.
      extract_multiple_images_from_composite boundary_vision ''in.png'' ''out'' False boundary_state
           = Inr st'
    \<and> (\<forall>i<length boundary_contours. \<forall>x y. boundingRect (boundary_contours ! i) = (x, y, 20, 30)
           \<longrightarrow> output_name ''out'' i \<notin> set (extracted_files st')
             \<and> files st' (output_name ''out'' i) = files boundary_state (output_name ''out'' i))
    \<and> (\<forall>i<length boundary_contours. \<forall>x y. boundingRect (boundary_contours ! i) = (x, y, 21, 21)
           \<longrightarrow> output_name ''out'' i \<in> set (extracted_files st')
             \<and> files st' (output_name ''out'' i)
                   = Some (ImageFile (icon boundary_vision boundary_image (boundary_contours ! i))))"
    unfolding boundary_detect by (elim exE conjE) (intro exI conjI; assumption)
  then obtain st' where run:
    "extract_multiple_images_from_composite boundary_vision ''in.png'' ''out'' False boundary_state
           = Inr st'"
    and no: "\<forall>i<length boundary_contours. \<forall>x y. boundingRect (boundary_contours ! i) = (x, y, 20, 30)
           \<longrightarrow> output_name ''out'' i \<notin> set (extracted_files st')
             \<and> files st' (output_name ''out'' i) = files boundary_state (output_name ''out'' i)"
    and yes: "\<forall>i<length boundary_contours. \<forall>x y. boundingRect (boundary_contours ! i) = (x, y, 21, 21)
           \<longrightarrow> output_name ''out'' i \<in> set (extracted_files st')
             \<and> files st' (output_name ''out'' i)
                   = Some (ImageFile (icon boundary_vision boundary_image (boundary_contours ! i)))"
    by blast
  have l: "0 < length boundary_contours" "Suc 0 < length boundary_contours"
    by (simp_all add: boundary_contours_def)
  have r: "boundingRect (boundary_contours ! Suc 0) = (0, 0, 21, 21)"
    using boundary_rects(2) by simp
  from no l(1) boundary_rects(1)
  have a: "output_name ''out'' 0 \<notin> set (extracted_files st')
         \<and> files st' (output_name ''out'' 0) = files boundary_state (output_name ''out'' 0)"
    by blast
  from yes l(2) r
  have b: "output_name ''out'' (Suc 0) \<in> set (extracted_files st')
         \<and> files st' (output_name ''out'' (Suc 0))
             = Some (ImageFile (icon boundary_vision boundary_image (boundary_contours ! Suc 0)))"
    by blast
  from a b run boundary_rects show ?thesis
    by (simp add: out_names boundary_state_def sample_state_def)
qed

text \<open>
  C4, as stated, fails: not every image that fails to load makes the run log an error and
  return. On a file that \<^verbatim>\<open>cv2.imread\<close> refuses with \<^verbatim>\<open>cv2.error\<close> the exception leaves
  the function, which has no handler: the run does not return, and the log holds the
  start line and no error record.
\<close>

theorem load_failure_counterexample:
  "files rejected_state ''huge.png'' = Some RejectedFile
   \<and> extract_multiple_images_from_composite sample_vision ''huge.png'' ''out'' False rejected_state
       = Inl (CvError, rejected_state\<lparr>logged :=
           [(INFO, ''Starting icon extraction from huge.png to out'')]\<rparr>)
   \<and> filter (\<lambda>r. fst r = ERROR) (logged (outcome_state
        (extract_multiple_images_from_composite sample_vision ''huge.png'' ''out'' False rejected_state)))
       = []"
  by (simp add: extract_rejected [OF rejected_load] rejected_load outcome_state_def)
     (simp add: rejected_state_def sample_state_def)

text \<open>
  C4, amended. When \<^verbatim>\<open>cv2.imread\<close> returns \<^verbatim>\<open>None\<close> for the input path, because the path
  names no file or names a file that does not decode, the run logs the error and returns:
  it writes no file, creates no directory and makes no archive, and the state it returns
  is the state it started from with two log records added, the start line and the error.
  When \<^verbatim>\<open>cv2.imread\<close> raises instead, the exception leaves the run after the start line,
  and again no file, directory or archive is made.
\<close>

theorem load_failure_only_logs:
  assumes "files st input_path = None \<or> files st input_path = Some UndecodableFile"
  shows "extract_multiple_images_from_composite cv input_path output_path zip_output st =
           Inr (st\<lparr>logged := logged st @
             [(INFO, ''Starting icon extraction from '' @ input_path @ '' to '' @ output_path),
              (ERROR, ''Could not load image from '' @ input_path)]\<rparr>)
       \<and> files (outcome_state
           (extract_multiple_images_from_composite cv input_path output_path zip_output st)) = files st
       \<and> dirs (outcome_state
           (extract_multiple_images_from_composite cv input_path output_path zip_output st)) = dirs st
       \<and> archives (outcome_state
           (extract_multiple_images_from_composite cv input_path output_path zip_output st)) = archives st
       \<and> (\<forall>st' path. files st' path = Some RejectedFile \<longrightarrow>
            extract_multiple_images_from_composite cv path output_path zip_output st' =
              Inl (CvError, st'\<lparr>logged := logged st' @
                [(INFO, ''Starting icon extraction from '' @ path @ '' to '' @ output_path)]\<rparr>))"
proof -
  from assms
  have "extract_multiple_images_from_composite cv input_path output_path zip_output st =
           Inr (st\<lparr>logged := logged st @
             [(INFO, ''Starting icon extraction from '' @ input_path @ '' to '' @ output_path),
              (ERROR, ''Could not load image from '' @ input_path)]\<rparr>)"
    using extract_load_failure extract_undecodable by blast
  then show ?thesis by (simp add: outcome_state_def extract_rejected)
qed

theorem load_failure_only_logs_witness:
  "files sample_state ''missing.png'' = None
   \<and> extract_multiple_images_from_composite sample_vision ''missing.png'' ''out'' True sample_state =
       Inr (sample_state\<lparr>logged := logged sample_state @
             [(INFO, ''Starting icon extraction from '' @ ''missing.png'' @ '' to '' @ ''out''),
              (ERROR, ''Could not load image from '' @ ''missing.png'')]\<rparr>)
   \<and> extract_multiple_images_from_composite sample_vision ''huge.png'' ''out'' True rejected_state =
       Inl (CvError, rejected_state\<lparr>logged := logged rejected_state @
             [(INFO, ''Starting icon extraction from '' @ ''huge.png'' @ '' to '' @ ''out'')]\<rparr>)"
proof -
  have h: "files sample_state ''missing.png'' = None" by (simp add: sample_state_def)
  then have h': "files sample_state ''missing.png'' = None
      \<or> files sample_state ''missing.png'' = Some UndecodableFile" by simp
  from h load_failure_only_logs [OF h', of sample_vision "''out''" True] rejected_load
  show ?thesis by blast
qed

text \<open>
  C5. For an image that loads with three channels, the file written for a surviving
  region with bounding box \<open>(x, y, w, h)\<close> is the conjunction, pixel by pixel and channel by
  channel, of the crop of the colour image to the box with the mask that is 255 where the
  filled contour, moved into the coordinates of the box, covers the pixel and 0
  elsewhere. So the pixel at row \<open>r\<close> and column \<open>col\<close> of the file is the pixel of the image
  at row \<open>y + r\<close> and column \<open>x + col\<close> where the contour covers it and black elsewhere, and
  every pixel of the file has three channels: no alpha channel is added.
\<close>

theorem written_image_is_masked_crop:
  assumes "files st input_path = Some (ImageFile img)"
    and "\<forall>c\<in>set (detect cv img). within img c"
    and "\<forall>row\<in>set img. \<forall>p\<in>set row. length p = 3"
  shows "\<exists>st'. extract_multiple_images_from_composite cv input_path output_path zip_output st = Inr st'
     \<and> (\<forall>(i, c)\<in>set (survivors 0 (detect cv img)).
          files st' (output_name output_path i)
            = Some (ImageFile (spec_and (spec_crop img c) (spec_mask cv c)))
        \<and> (\<forall>row\<in>set (spec_and (spec_crop img c) (spec_mask cv c)). \<forall>p\<in>set row. length p = 3)
        \<and> (case boundingRect c of (x, y, w, h) \<Rightarrow>
             \<forall>r<nat h. \<forall>col<nat w.
               spec_and (spec_crop img c) (spec_mask cv c) ! r ! col =
                 (if fill_covers cv [map (\<lambda>(px, py). (px - x, py - y)) c] (int col, int r)
                  then img ! (nat y + r) ! (nat x + col) else [0, 0, 0])))"
proof -
  from extract_run [OF assms(1,2), of output_path zip_output]
  obtain st' where run:
    "extract_multiple_images_from_composite cv input_path output_path zip_output st = Inr st'"
    and wr: "\<forall>(i, c)\<in>set (survivors 0 (detect cv img)).
           files st' (output_name output_path i) = Some (ImageFile (icon cv img c))"
    by auto
  have one: "files st' (output_name output_path i)
            = Some (ImageFile (spec_and (spec_crop img c) (spec_mask cv c)))
        \<and> (\<forall>row\<in>set (spec_and (spec_crop img c) (spec_mask cv c)). \<forall>p\<in>set row. length p = 3)
        \<and> (case boundingRect c of (x, y, w, h) \<Rightarrow>
             \<forall>r<nat h. \<forall>col<nat w.
               spec_and (spec_crop img c) (spec_mask cv c) ! r ! col =
                 (if fill_covers cv [map (\<lambda>(px, py). (px - x, py - y)) c] (int col, int r)
                  then img ! (nat y + r) ! (nat x + col) else [0, 0, 0]))"
    if m: "(i, c) \<in> set (survivors 0 (detect cv img))" for i c
  proof -
    obtain x y w h where b: "boundingRect c = (x, y, w, h)" by (cases "boundingRect c") auto
    from m have c: "c \<in> set (detect cv img)" and s: "survives c"
      by (auto simp: survivors_member)
    from c assms(2) have w: "within img c" by blast
    have eq: "icon cv img c = spec_and (spec_crop img c) (spec_mask cv c)"
      by (simp add: icon_spec crop_spec [OF w s])
    have three: "length p = 3" if "row \<in> set (crop img c)" "p \<in> set row" for row p
      using crop_pixels [OF that] assms(3) by blast
    have ch: "length p = 3" if "row \<in> set (spec_and (spec_crop img c) (spec_mask cv c))" "p \<in> set row"
      for row p
      using three spec_mask_values that unfolding crop_spec [OF w s, symmetric]
      by (rule spec_and_channels)
    from wr m have "files st' (output_name output_path i) = Some (ImageFile (icon cv img c))"
      by blast
    with ch masked_pixel [OF w s assms(3) b, of _ _ cv] show ?thesis
      by (simp add: eq b)
  qed
  have "\<forall>(i, c)\<in>set (survivors 0 (detect cv img)).
          files st' (output_name output_path i)
            = Some (ImageFile (spec_and (spec_crop img c) (spec_mask cv c)))
        \<and> (\<forall>row\<in>set (spec_and (spec_crop img c) (spec_mask cv c)). \<forall>p\<in>set row. length p = 3)
        \<and> (case boundingRect c of (x, y, w, h) \<Rightarrow>
             \<forall>r<nat h. \<forall>col<nat w.
               spec_and (spec_crop img c) (spec_mask cv c) ! r ! col =
                 (if fill_covers cv [map (\<lambda>(px, py). (px - x, py - y)) c] (int col, int r)
                  then img ! (nat y + r) ! (nat x + col) else [0, 0, 0]))"
  proof (rule ballI)
    fix ic
    assume mem: "ic \<in> set (survivors 0 (detect cv img))"
    obtain i c where ic: "ic = (i, c)" by (cases ic)
    from mem show "case ic of (i, c) \<Rightarrow>
          files st' (output_name output_path i)
            = Some (ImageFile (spec_and (spec_crop img c) (spec_mask cv c)))
        \<and> (\<forall>row\<in>set (spec_and (spec_crop img c) (spec_mask cv c)). \<forall>p\<in>set row. length p = 3)
        \<and> (case boundingRect c of (x, y, w, h) \<Rightarrow>
             \<forall>r<nat h. \<forall>col<nat w.
               spec_and (spec_crop img c) (spec_mask cv c) ! r ! col =
                 (if fill_covers cv [map (\<lambda>(px, py). (px - x, py - y)) c] (int col, int r)
                  then img ! (nat y + r) ! (nat x + col) else [0, 0, 0]))"
      unfolding ic prod.case by (rule one)
  qed
  with run show ?thesis by (intro exI [of _ st'] conjI)
qed

theorem written_image_is_masked_crop_witness:
  "\<exists>st' written.
     extract_multiple_images_from_composite sample_vision ''in.png'' ''out'' False sample_state
       = Inr st'
     \<and> files st' ''out/out_2.png'' = Some (ImageFile written)
     \<and> written = spec_and (spec_crop sample_image [(1, 1), (22, 1), (22, 21), (1, 21)])
                    (spec_mask sample_vision [(1, 1), (22, 1), (22, 21), (1, 21)])
     \<and> written ! 0 ! 0 = [0, 0, 0]
     \<and> sample_image ! 2 ! 3 = [3, 2, 50] \<and> written ! 1 ! 2 = [3, 2, 50]"
proof -
  have px: "sample_image ! 2 ! 3 = [3, 2, 50]" by (simp add: sample_image_def)
  from written_image_is_masked_crop [OF sample_load sample_within sample_three, of "''out''" False]
    sample_region
  obtain st' where
    "extract_multiple_images_from_composite sample_vision ''in.png'' ''out'' False sample_state
       = Inr st'"
    and "files st' ''out/out_2.png'' =
      Some (ImageFile (spec_and (spec_crop sample_image [(1, 1), (22, 1), (22, 21), (1, 21)])
                    (spec_mask sample_vision [(1, 1), (22, 1), (22, 21), (1, 21)])))"
    by (fastforce simp: out_names)
  with sample_pixels px show ?thesis by blast
qed

text \<open>
  C6. For an image that loads, the file written for a surviving region has as many rows as
  the bounding box of the region is high, and every row has as many pixels as the box is
  wide.
\<close>

theorem output_dimensions_equal_bounding_box:
  assumes "files st input_path = Some (ImageFile img)"
    and "\<forall>c\<in>set (detect cv img). within img c"
  shows "\<exists>st'. extract_multiple_images_from_composite cv input_path output_path zip_output st = Inr st'
     \<and> (\<forall>(i, c)\<in>set (survivors 0 (detect cv img)).
          \<exists>written. files st' (output_name output_path i) = Some (ImageFile written)
            \<and> (case boundingRect c of (x, y, w, h) \<Rightarrow>
                 int (length written) = h \<and> (\<forall>row\<in>set written. int (length row) = w)))"
proof -
  from extract_run [OF assms(1,2), of output_path zip_output]
  obtain st' where run:
    "extract_multiple_images_from_composite cv input_path output_path zip_output st = Inr st'"
    and wr: "\<forall>(i, c)\<in>set (survivors 0 (detect cv img)).
           files st' (output_name output_path i) = Some (ImageFile (icon cv img c))"
    by auto
  have dims: "case boundingRect c of (x, y, w, h) \<Rightarrow>
                 int (length (icon cv img c)) = h \<and> (\<forall>row\<in>set (icon cv img c). int (length row) = w)"
    if m: "(i, c) \<in> set (survivors 0 (detect cv img))" for i c
  proof -
    obtain x y w h where b: "boundingRect c = (x, y, w, h)" by (cases "boundingRect c") auto
    from m have c: "c \<in> set (detect cv img)" and s: "survives c"
      by (auto simp: survivors_member)
    from c assms(2) have w: "within img c" by blast
    from s b have pos: "0 < w" "0 < h"
      by (simp_all add: survives_def MIN_CONTOUR_WIDTH_def MIN_CONTOUR_HEIGHT_def)
    note r = spec_and_rows [OF crop_rows(1) [OF w s b] spec_mask_rows(1) [OF b, where cv = cv]
        crop_rows(2) [OF w s b] spec_mask_rows(2) [OF b, where cv = cv]]
    from r(1) pos have "int (length (icon cv img c)) = h" by (simp add: icon_spec)
    moreover have "int (length row) = w" if "row \<in> set (icon cv img c)" for row
      using r(2) [of row] that pos by (simp add: icon_spec)
    ultimately show ?thesis by (simp add: b)
  qed
  from run wr dims show ?thesis by fastforce
qed

theorem output_dimensions_equal_bounding_box_witness:
  "\<exists>st' written.
      extract_multiple_images_from_composite sample_vision ''in.png'' ''out'' False sample_state
        = Inr st'
    \<and> boundingRect [(1, 1), (22, 1), (22, 21), (1, 21)] = (1, 1, 22, 21)
    \<and> files st' ''out/out_2.png'' = Some (ImageFile written)
    \<and> int (length written) = 21 \<and> int (length (written ! 0)) = 22"
proof -
  from output_dimensions_equal_bounding_box [OF sample_load sample_within, of "''out''" False]
    sample_region
  obtain st' written where run:
    "extract_multiple_images_from_composite sample_vision ''in.png'' ''out'' False sample_state
        = Inr st'"
    and f: "files st' ''out/out_2.png'' = Some (ImageFile written)"
    and d: "int (length written) = 21" "\<forall>row\<in>set written. int (length row) = 22"
    by (fastforce simp: out_names sample_rect)
  from d(1) have "written ! 0 \<in> set written" by (intro nth_mem) simp
  with d(2) have "int (length (written ! 0)) = 22" by blast
  with run f d(1) sample_rect show ?thesis by blast
qed

text \<open>
  C7. For an all-white image the inverted adaptive threshold is zero everywhere: the
  grayscale image is uniform, the local mean of a uniform image is its value, and no pixel
  is at most its mean minus 2. The detector reports no contour on a mask with no
  foreground, so the run writes no file. The two facts about the library the claim
  rests on are hypotheses: the weighted mean of a constant image is that constant, and
  the detector finds nothing in an all-zero mask.
\<close>

theorem blank_page_yields_nothing:
  assumes "files st input_path = Some (ImageFile img)"
    and "\<forall>row\<in>set img. \<forall>p\<in>set row. p = [255, 255, 255]"
    and "\<forall>g v r c. (\<forall>row\<in>set g. \<forall>p\<in>set row. p = [v]) \<and> r < length g \<and> c < length (g ! r)
           \<longrightarrow> local_mean cv g r c = v"
    and "\<forall>m. (\<forall>row\<in>set m. \<forall>p\<in>set row. p = [0]) \<longrightarrow> find_contours cv m = []"
  shows "(\<forall>row\<in>set (threshold cv (bgr2gray cv img)). \<forall>p\<in>set row. p = [0])
       \<and> detect cv img = []
       \<and> (\<exists>st'. extract_multiple_images_from_composite cv input_path output_path zip_output st
                  = Inr st'
            \<and> extracted_files st' = [] \<and> files st' = files st)"
proof -
  have z: "\<forall>row\<in>set (threshold cv (bgr2gray cv img)). \<forall>p\<in>set row. p = [0]"
    using assms(2,3) by (rule threshold_uniform)
  with assms(4) have d: "detect cv img = []" by (simp add: detect_def)
  have "extract_multiple_images_from_composite cv input_path output_path zip_output st =
        Inr (finish output_path zip_output (entry_state cv input_path output_path img st))"
    by (simp add: extract_loaded [OF assms(1)] d)
  then have "\<exists>st'. extract_multiple_images_from_composite cv input_path output_path zip_output st
                  = Inr st'
            \<and> extracted_files st' = [] \<and> files st' = files st"
    by (simp add: finish_fields entry_state_fields)
  with z d show ?thesis by blast
qed

theorem blank_page_yields_nothing_witness:
  "detect blank_vision blank_image = []
   \<and> (\<exists>st'. extract_multiple_images_from_composite blank_vision ''in.png'' ''out'' False blank_state
              = Inr st'
        \<and> extracted_files st' = [] \<and> files st' = files blank_state)"
  using blank_page_yields_nothing [OF blank_load blank_white blank_mean blank_detector, of "''out''" False]
  by blast

text \<open>
  C8. Running the extractor a second time on the state the first run left, with the same
  input image and the same output directory, performs the same writes again and leaves
  the files, the directories and the archives as the first run left them. Every write
  is unconditional: whatever the state held under an output name before a run, the run
  replaces it, so after each of the two runs every output name holds the masked crop of
  its region; nothing is skipped because a file exists. The sample run starts with
  another image under the output name and ends with the masked crop there.
\<close>

theorem rerun_is_idempotent:
  assumes "files st input_path = Some (ImageFile img)"
    and "\<forall>c\<in>set (detect cv img). within img c"
    and "files (outcome_state
           (extract_multiple_images_from_composite cv input_path output_path zip_output st))
           input_path = Some (ImageFile img)"
  shows "\<exists>st1 st2.
      extract_multiple_images_from_composite cv input_path output_path zip_output st = Inr st1
    \<and> extract_multiple_images_from_composite cv input_path output_path zip_output st1 = Inr st2
    \<and> extracted_files st2 = extracted_files st1
    \<and> set (extracted_files st2) \<subseteq> dom (files st1)
    \<and> files st2 = files st1 \<and> dirs st2 = dirs st1 \<and> archives st2 = archives st1
    \<and> (\<forall>(i, c)\<in>set (survivors 0 (detect cv img)).
          output_name output_path i \<in> set (extracted_files st1)
        \<and> files st1 (output_name output_path i) = Some (ImageFile (icon cv img c))
        \<and> files st2 (output_name output_path i) = Some (ImageFile (icon cv img c)))
    \<and> (\<forall>(i, c)\<in>set (survivors 0 (detect cv img)). \<forall>stale.
          \<exists>st3. extract_multiple_images_from_composite cv input_path output_path zip_output
                  (st1\<lparr>files := (files st1)(output_name output_path i \<mapsto> stale,
                                            input_path \<mapsto> ImageFile img)\<rparr>) = Inr st3
             \<and> files st3 (output_name output_path i) = Some (ImageFile (icon cv img c)))"
proof -
  let ?names = "map (\<lambda>(i, c). output_name output_path i) (survivors 0 (detect cv img))"
  let ?zip = "output_path @ ''.zip''"
  from extract_run [OF assms(1,2), of output_path zip_output]
  obtain st1 where run1:
    "extract_multiple_images_from_composite cv input_path output_path zip_output st = Inr st1"
    and ex1: "extracted_files st1 = ?names"
    and wr1: "\<forall>(i, c)\<in>set (survivors 0 (detect cv img)).
           files st1 (output_name output_path i) = Some (ImageFile (icon cv img c))"
    and d1: "dirs st1 = insert output_path (dirs st)"
    and a1: "archives st1 =
         (if zip_output
          then (archives st)(?zip \<mapsto> (\<lambda>p. if below output_path p then files st1 p else None))
          else archives st)"
    by auto
  from assms(3) run1 have load1: "files st1 input_path = Some (ImageFile img)"
    by (simp add: outcome_state_def)
  from extract_run [OF load1 assms(2), of output_path zip_output]
  obtain st2 where run2:
    "extract_multiple_images_from_composite cv input_path output_path zip_output st1 = Inr st2"
    and ex2: "extracted_files st2 = ?names"
    and wr2: "\<forall>(i, c)\<in>set (survivors 0 (detect cv img)).
           files st2 (output_name output_path i) = Some (ImageFile (icon cv img c))"
    and fr2: "\<forall>p. p \<notin> set ?names \<longrightarrow> files st2 p = files st1 p"
    and d2: "dirs st2 = insert output_path (dirs st1)"
    and a2: "archives st2 =
         (if zip_output
          then (archives st1)(?zip \<mapsto> (\<lambda>p. if below output_path p then files st2 p else None))
          else archives st1)"
    by auto
  have files: "files st2 = files st1"
  proof
    fix p
    show "files st2 p = files st1 p"
    proof (cases "p \<in> set ?names")
      case True
      then obtain i c where "(i, c) \<in> set (survivors 0 (detect cv img))"
        and "p = output_name output_path i" by auto
      with wr1 wr2 show ?thesis by fastforce
    next
      case False
      with fr2 show ?thesis by blast
    qed
  qed
  have dom: "set (extracted_files st2) \<subseteq> dom (files st1)"
    using wr1 unfolding ex2 by fastforce
  have dirs: "dirs st2 = dirs st1" using d1 d2 by auto
  have arch: "archives st2 = archives st1"
    using a1 a2 by (cases zip_output) (simp_all add: files cong: if_cong)
  have listed: "\<forall>(i, c)\<in>set (survivors 0 (detect cv img)).
          output_name output_path i \<in> set (extracted_files st1)
        \<and> files st1 (output_name output_path i) = Some (ImageFile (icon cv img c))
        \<and> files st2 (output_name output_path i) = Some (ImageFile (icon cv img c))"
    using wr1 wr2 unfolding ex1 by force
  have over: "\<exists>st3. extract_multiple_images_from_composite cv input_path output_path zip_output
                  (st1\<lparr>files := (files st1)(output_name output_path i \<mapsto> stale,
                                            input_path \<mapsto> ImageFile img)\<rparr>) = Inr st3
             \<and> files st3 (output_name output_path i) = Some (ImageFile (icon cv img c))"
    if m: "(i, c) \<in> set (survivors 0 (detect cv img))" for i c stale
  proof -
    let ?s = "st1\<lparr>files := (files st1)(output_name output_path i \<mapsto> stale,
                                            input_path \<mapsto> ImageFile img)\<rparr>"
    have "files ?s input_path = Some (ImageFile img)" by simp
    from extract_run [OF this assms(2), of output_path zip_output] m
    show ?thesis by blast
  qed
  have over_all: "\<forall>(i, c)\<in>set (survivors 0 (detect cv img)). \<forall>stale.
          \<exists>st3. extract_multiple_images_from_composite cv input_path output_path zip_output
                  (st1\<lparr>files := (files st1)(output_name output_path i \<mapsto> stale,
                                            input_path \<mapsto> ImageFile img)\<rparr>) = Inr st3
             \<and> files st3 (output_name output_path i) = Some (ImageFile (icon cv img c))"
  proof (rule ballI)
    fix ic
    assume mem: "ic \<in> set (survivors 0 (detect cv img))"
    obtain i c where ic: "ic = (i, c)" by (cases ic)
    from mem show "case ic of (i, c) \<Rightarrow> \<forall>stale.
          \<exists>st3. extract_multiple_images_from_composite cv input_path output_path zip_output
                  (st1\<lparr>files := (files st1)(output_name output_path i \<mapsto> stale,
                                            input_path \<mapsto> ImageFile img)\<rparr>) = Inr st3
             \<and> files st3 (output_name output_path i) = Some (ImageFile (icon cv img c))"
      unfolding ic prod.case by (intro allI over)
  qed
  have ex21: "extracted_files st2 = extracted_files st1" by (simp add: ex1 ex2)
  show ?thesis
    by (intro exI [of _ st1] exI [of _ st2] conjI run1 run2 ex21 dom files dirs arch listed over_all)
qed

theorem rerun_is_idempotent_witness:
  "files stale_state ''out/out_2.png'' = Some (ImageFile [[[1, 2, 3]]])
   \<and> (\<exists>st1 st2.
      extract_multiple_images_from_composite sample_vision ''in.png'' ''out'' True stale_state = Inr st1
    \<and> extract_multiple_images_from_composite sample_vision ''in.png'' ''out'' True st1 = Inr st2
    \<and> extracted_files st1 = [''out/out_2.png''] \<and> extracted_files st2 = [''out/out_2.png'']
    \<and> files st1 ''out/out_2.png'' =
         Some (ImageFile (icon sample_vision sample_image [(1, 1), (22, 1), (22, 21), (1, 21)]))
    \<and> files st2 = files st1 \<and> dirs st2 = dirs st1 \<and> archives st2 = archives st1)
   \<and> length (icon sample_vision sample_image [(1, 1), (22, 1), (22, 21), (1, 21)]) = 21"
proof -
  let ?c = "[(1, 1), (22, 1), (22, 21), (1, 21)] :: contour"
  have stale: "files stale_state ''out/out_2.png'' = Some (ImageFile [[[1, 2, 3]]])"
    by (simp add: stale_state_def)
  have w: "within sample_image ?c"
    using sample_within by (simp add: sample_detect sample_contours_def)
  have s: "survives ?c" using sample_region by (simp add: survivors_member)
  have len: "length (icon sample_vision sample_image ?c) = 21"
    using spec_and_rows(1) [OF crop_rows(1) [OF w s sample_rect]
        spec_mask_rows(1) [OF sample_rect, where cv = sample_vision]
        crop_rows(2) [OF w s sample_rect]
        spec_mask_rows(2) [OF sample_rect, where cv = sample_vision]]
    by (simp add: icon_spec)
  from rerun_is_idempotent [OF stale_load sample_within stale_same_input] sample_region
  obtain st1 st2 where
    "extract_multiple_images_from_composite sample_vision ''in.png'' ''out'' True stale_state = Inr st1"
    "extract_multiple_images_from_composite sample_vision ''in.png'' ''out'' True st1 = Inr st2"
    "extracted_files st2 = extracted_files st1"
    "files st2 = files st1" "dirs st2 = dirs st1" "archives st2 = archives st1"
    "files st1 (output_name ''out'' (Suc 0)) = Some (ImageFile (icon sample_vision sample_image ?c))"
    by fastforce
  moreover from numbering_names_stale this(1) have "extracted_files st1 = [''out/out_2.png'']"
    by simp
  ultimately show ?thesis using stale len by (auto simp: out_names)
qed

text \<open>
  C9. The loaded source image is never mutated. \<^verbatim>\<open>cv2.imread\<close> places the image at a
  fresh address of the store; the crop is a view of that buffer, the mask and the masked
  crop are new buffers, and the one write in place, \<^verbatim>\<open>cv2.drawContours\<close>, goes to the
  mask. So the buffer holds the image when the loop starts, after every number \<open>k\<close> of
  iterations of the loop, and when the run ends, whether it returns or stops at a fault.
\<close>

theorem source_image_never_mutated:
  assumes "files st input_path = Some (ImageFile img)"
  shows "length (heap st) <
           length (heap (outcome_state
             (extract_multiple_images_from_composite cv input_path output_path zip_output st)))
       \<and> heap (outcome_state
             (extract_multiple_images_from_composite cv input_path output_path zip_output st))
           ! length (heap st) = img
       \<and> heap (entry_state cv input_path output_path img st) ! length (heap st) = img
       \<and> (\<forall>k. heap (outcome_state
                (for_each (loop_body cv output_path (basename (normpath output_path)) (length (heap st)))
                   (take k (enumerate 0 (detect cv img)))
                   (entry_state cv input_path output_path img st)))
              ! length (heap st) = img)"
  using for_each_heap [OF entry_state_fields(5,6)]
  by (simp add: outcome_extract_loaded(1) [OF assms] entry_state_fields)

theorem source_image_never_mutated_witness:
  "files sample_state ''in.png'' = Some (ImageFile sample_image)
   \<and> heap (outcome_state
        (extract_multiple_images_from_composite sample_vision ''in.png'' ''out'' True sample_state))
      ! 0 = sample_image"
  using sample_load source_image_never_mutated [OF sample_load, of sample_vision "''out''" True]
  by (simp add: sample_state_def)

text \<open>
  C10. For an image that loads, the output directory is created before the loop over the
  contours and whatever the loop does: it is in the state the loop starts from and in the
  state the run ends in. A run in which no region passes the size test, a blank page for
  one, returns with no file written and the directory created.
\<close>

theorem output_directory_always_created:
  assumes "files st input_path = Some (ImageFile img)"
  shows "output_path \<in> dirs (outcome_state
           (extract_multiple_images_from_composite cv input_path output_path zip_output st))
       \<and> output_path \<in> dirs (entry_state cv input_path output_path img st)
       \<and> (survivors 0 (detect cv img) = [] \<longrightarrow>
            (\<exists>st'. extract_multiple_images_from_composite cv input_path output_path zip_output st
                     = Inr st'
               \<and> extracted_files st' = [] \<and> files st' = files st \<and> output_path \<in> dirs st'))"
proof -
  have a: "output_path \<in> dirs (outcome_state
           (extract_multiple_images_from_composite cv input_path output_path zip_output st))"
    by (simp add: outcome_extract_loaded(2) [OF assms] for_each_dirs entry_state_fields)
  have b: "output_path \<in> dirs (entry_state cv input_path output_path img st)"
    by (simp add: entry_state_fields)
  have c: "\<exists>st'. extract_multiple_images_from_composite cv input_path output_path zip_output st
                     = Inr st'
               \<and> extracted_files st' = [] \<and> files st' = files st \<and> output_path \<in> dirs st'"
    if "survivors 0 (detect cv img) = []"
  proof -
    from that have "\<forall>c\<in>set (detect cv img). \<not> survives c" by (simp add: survivors_empty)
    then have "extract_multiple_images_from_composite cv input_path output_path zip_output st =
        Inr (finish output_path zip_output (entry_state cv input_path output_path img st))"
      by (simp add: extract_loaded [OF assms] for_each_none_survive)
    then show ?thesis by (simp add: finish_fields entry_state_fields)
  qed
  from a b c show ?thesis by blast
qed

theorem output_directory_always_created_witness:
  "survivors 0 (detect blank_vision blank_image) = []
   \<and> ''out'' \<in> dirs (outcome_state
        (extract_multiple_images_from_composite blank_vision ''in.png'' ''out'' False blank_state))
   \<and> (\<exists>st'. extract_multiple_images_from_composite blank_vision ''in.png'' ''out'' False blank_state
              = Inr st'
        \<and> extracted_files st' = [] \<and> ''out'' \<in> dirs st')"
proof -
  have s: "survivors 0 (detect blank_vision blank_image) = []"
    by (simp add: blank_detect survivors_Nil)
  from output_directory_always_created [OF blank_load, of "''out''" blank_vision False] s
  show ?thesis by blast
qed

end
